theory Spec2Isabelle
  imports Main "HOL-Library.AList"
begin

section \<open>JavaScript values, objects and the built-ins the converter calls\<close>

text \<open>
  The converter \<^verbatim>\<open>VnrToYagtFormat\<close> of \<^verbatim>\<open>src/index.js\<close> works on the tree that the XML
  loader hands over: an array of term records whose child elements are strings (or are
  missing) and whose XML attributes sit in the object \<^verbatim>\<open>$\<close>. It builds plain objects with
  computed property names. The values that can end up in such an object are strings,
  the boolean written by line 173, the array created by line 174, and \<^verbatim>\<open>undefined\<close>.

  A JavaScript string is a sequence of UTF-16 code units; a \<^typ>\<open>char\<close> stands for one code
  unit here, so \<^const>\<open>length\<close> is the \<^verbatim>\<open>.length\<close> of the source (code units above 255 are
  outside the alphabet of the model).
\<close>

datatype jsval = JsUndefined | JsBool bool | JsStr string | JsArr "jsval list"

datatype error = TypeError | InheritedProperty

text \<open>
  An object is the list of its own properties in creation order. Assigning to an
  existing name keeps the property in place, a new name goes last, \<^verbatim>\<open>delete\<close> removes it
  (\<^const>\<open>AList.update\<close> and \<^const>\<open>AList.delete\<close>).
\<close>

type_synonym obj = "(string \<times> jsval) list"

definition truthy :: "jsval \<Rightarrow> bool" where
  "truthy v = (case v of JsUndefined \<Rightarrow> False | JsBool b \<Rightarrow> b | JsStr s \<Rightarrow> s \<noteq> [] | JsArr xs \<Rightarrow> True)"

definition js_not :: "jsval \<Rightarrow> jsval" where
  \<comment> \<open>the operator \<^verbatim>\<open>!\<close>: always a boolean\<close>
  "js_not v = JsBool (\<not> truthy v)"

definition strict_equals :: "jsval \<Rightarrow> jsval \<Rightarrow> bool" where
  \<comment> \<open>\<^verbatim>\<open>===\<close> on undefined, booleans and strings (the converter never compares arrays)\<close>
  "strict_equals a b = (a = b)"

definition field :: "string option \<Rightarrow> jsval" where
  \<comment> \<open>reading a child element of a record: its text, or \<^verbatim>\<open>undefined\<close> when it is missing\<close>
  "field x = (case x of None \<Rightarrow> JsUndefined | Some s \<Rightarrow> JsStr s)"

definition ToString :: "jsval \<Rightarrow> string" where
  \<comment> \<open>the conversion applied to a computed property name and to the argument of
      \<^verbatim>\<open>String.prototype.includes\<close>; only undefined and strings reach it\<close>
  "ToString v = (case v of JsStr s \<Rightarrow> s | JsUndefined \<Rightarrow> ''undefined''
     | JsBool b \<Rightarrow> (if b then ''true'' else ''false'') | JsArr xs \<Rightarrow> [])"

definition get_prop :: "obj \<Rightarrow> string \<Rightarrow> jsval" where
  "get_prop ob k = (case map_of ob k of None \<Rightarrow> JsUndefined | Some v \<Rightarrow> v)"

definition set_prop :: "obj \<Rightarrow> string \<Rightarrow> jsval \<Rightarrow> obj" where
  \<comment> \<open>\<^verbatim>\<open>ob[k] = v\<close> for a primitive or a fresh array \<^verbatim>\<open>v\<close>. The name \<^verbatim>\<open>__proto__\<close> is the
      accessor of \<^verbatim>\<open>Object.prototype\<close>: assigning a string to it changes nothing.\<close>
  "set_prop ob k v = (if k = ''__proto__'' then ob else AList.update k v ob)"

definition delete_prop :: "obj \<Rightarrow> string \<Rightarrow> obj" where
  "delete_prop ob k = AList.delete k ob"

definition includes' :: "jsval \<Rightarrow> jsval \<Rightarrow> error + bool" where
  \<comment> \<open>\<^verbatim>\<open>x.includes(v)\<close>: membership for an array, substring search for a string, and a
      TypeError where \<^verbatim>\<open>x\<close> is undefined or has no such method\<close>
  "includes' x v = (case x of
       JsArr xs \<Rightarrow> Inr (v \<in> set xs)
     | JsStr s \<Rightarrow> Inr (list_ex (\<lambda>i. take (length (ToString v)) (drop i s) = ToString v) [0..<Suc (length s)])
     | JsUndefined \<Rightarrow> Inl TypeError
     | JsBool b \<Rightarrow> Inl TypeError)"

definition push :: "jsval \<Rightarrow> jsval \<Rightarrow> error + jsval" where
  \<comment> \<open>\<^verbatim>\<open>x.push(v)\<close>: only an array has the method\<close>
  "push x v = (case x of JsArr xs \<Rightarrow> Inr (JsArr (xs @ [v])) | _ \<Rightarrow> Inl TypeError)"

subsection \<open>The global function isNaN on a string\<close>

text \<open>
  \<^verbatim>\<open>isNaN(s)\<close> converts the string to a number and tests for NaN. The conversion
  (ECMA-262, StringToNumber) yields NaN exactly when the string, with white space
  stripped at both ends, is neither empty nor a StrNumericLiteral. The recognisers
  below follow that grammar, production by production.
\<close>

definition StrWhiteSpaceChar :: "char \<Rightarrow> bool" where
  "StrWhiteSpaceChar c = (c \<in> set [CHR 0x09, CHR 0x0A, CHR 0x0B, CHR 0x0C, CHR 0x0D, CHR 0x20, CHR 0xA0])"

definition DecimalDigit :: "char \<Rightarrow> bool" where
  "DecimalDigit c = (c \<in> set ''0123456789'')"

definition DecimalDigits :: "string \<Rightarrow> bool" where
  "DecimalDigits s = (s \<noteq> [] \<and> list_all DecimalDigit s)"

definition SignedInteger :: "string \<Rightarrow> bool" where
  "SignedInteger s = (case s of [] \<Rightarrow> False
     | c # r \<Rightarrow> if c = CHR ''+'' \<or> c = CHR ''-'' then DecimalDigits r else DecimalDigits s)"

definition ExponentPart :: "string \<Rightarrow> bool" where
  "ExponentPart s = (case s of [] \<Rightarrow> False
     | c # r \<Rightarrow> (c = CHR ''e'' \<or> c = CHR ''E'') \<and> SignedInteger r)"

definition StrUnsignedDecimalLiteral :: "string \<Rightarrow> bool" where
  "StrUnsignedDecimalLiteral s =
     (s = ''Infinity'' \<or>
      (let ds = takeWhile DecimalDigit s; r = dropWhile DecimalDigit s in
       case r of
         [] \<Rightarrow> ds \<noteq> []
       | c # r' \<Rightarrow>
           if c = CHR ''.''
           then (let fs = takeWhile DecimalDigit r'; r2 = dropWhile DecimalDigit r' in
                 (ds \<noteq> [] \<or> fs \<noteq> []) \<and> (r2 = [] \<or> ExponentPart r2))
           else ds \<noteq> [] \<and> ExponentPart r))"

definition StrDecimalLiteral :: "string \<Rightarrow> bool" where
  "StrDecimalLiteral s = (case s of [] \<Rightarrow> False
     | c # r \<Rightarrow> if c = CHR ''+'' \<or> c = CHR ''-'' then StrUnsignedDecimalLiteral r
                else StrUnsignedDecimalLiteral s)"

definition NonDecimalIntegerLiteral :: "string \<Rightarrow> bool" where
  "NonDecimalIntegerLiteral s = (case s of
       c0 # c1 # r \<Rightarrow> c0 = CHR ''0'' \<and> r \<noteq> [] \<and>
         ((c1 = CHR ''b'' \<or> c1 = CHR ''B'') \<and> list_all (\<lambda>c. c \<in> set ''01'') r \<or>
          (c1 = CHR ''o'' \<or> c1 = CHR ''O'') \<and> list_all (\<lambda>c. c \<in> set ''01234567'') r \<or>
          (c1 = CHR ''x'' \<or> c1 = CHR ''X'') \<and> list_all (\<lambda>c. c \<in> set ''0123456789abcdefABCDEF'') r)
     | _ \<Rightarrow> False)"

definition StringNumericLiteral :: "string \<Rightarrow> bool" where
  "StringNumericLiteral s =
     (let t = rev (dropWhile StrWhiteSpaceChar (rev (dropWhile StrWhiteSpaceChar s)))
      in t = [] \<or> StrDecimalLiteral t \<or> NonDecimalIntegerLiteral t)"

definition isNaN :: "string \<Rightarrow> bool" where
  "isNaN s = (\<not> StringNumericLiteral s)"

section \<open>The input records\<close>

text \<open>
  One element of \<^verbatim>\<open>object.grimoire.terms.term\<close>. Every child element may be missing
  (\<^const>\<open>None\<close>, read as \<^verbatim>\<open>undefined\<close>); \<open>dollar\<close> is the attribute object \<^verbatim>\<open>$\<close>, missing
  when the XML element carries no attribute, and otherwise the list of its attributes,
  among them \<^verbatim>\<open>type\<close>. The converter is modelled on an array of such records, which
  is what the loader delivers for a document with two or more terms.
\<close>

record vnr_term =
  sourceLanguage :: "string option"
  language :: "string option"
  text' :: "string option"
  pattern :: "string option"
  regex :: "string option"
  comment :: "string option"
  dollar :: "(string \<times> string) list option"

section \<open>VnrToYagtFormat\<close>

text \<open>
  Lines 150 to 158: the condition under which the loop body runs \<^verbatim>\<open>continue\<close>. The
  operands of \<^verbatim>\<open>||\<close> are evaluated from the left; the second one reads \<^verbatim>\<open>$.type\<close> and
  raises a TypeError when \<^verbatim>\<open>$\<close> is undefined. In the first two operands \<^verbatim>\<open>!\<close> applies to
  the field before \<^verbatim>\<open>===\<close> compares, as the source has it.
\<close>

definition ignored :: "vnr_term \<Rightarrow> error + bool" where
  "ignored t =
     (if strict_equals (js_not (field (sourceLanguage t))) (JsStr ''ja'') then Inr True
      else case dollar t of
        None \<Rightarrow> Inl TypeError
      | Some attrs \<Rightarrow>
          Inr (strict_equals (js_not (field (map_of attrs ''type''))) (JsStr ''trans'')
               \<or> \<not> truthy (field (text' t))
               \<or> \<not> truthy (field (pattern t))
               \<or> (case pattern t of None \<Rightarrow> True
                   | Some p \<Rightarrow> \<not> isNaN p \<or> \<not> (length p > 1))))"

text \<open>Lines 183 to 188: the object created for a pattern that is not in the dictionary.\<close>

definition oneTerm :: "vnr_term \<Rightarrow> obj" where
  "oneTerm t =
     (let o1 = set_prop [] ''sourceLanguage'' (field (sourceLanguage t));
          o2 = set_prop o1 (ToString (field (language t))) (field (text' t))
      in if truthy (field (comment t)) then set_prop o2 ''comment'' (field (comment t)) else o2)"

text \<open>
  Lines 162 to 178: the branches that keep track of the source languages of an object
  already in the dictionary; \<open>sl\<close> is the \<^verbatim>\<open>sourceLanguage\<close> of the incoming record.
\<close>

definition trackSourceLanguage :: "obj \<Rightarrow> jsval \<Rightarrow> error + obj" where
  "trackSourceLanguage existedTerm sl =
     (if strict_equals (get_prop existedTerm ''sourceLanguage'') sl
      then Inr existedTerm
      else if truthy (get_prop existedTerm ''multipleSourceLanguages'')
      then (case includes' (get_prop existedTerm ''sourceLanguages'') sl of
              Inl e \<Rightarrow> Inl e
            | Inr True \<Rightarrow> Inr existedTerm
            | Inr False \<Rightarrow>
                (case push (get_prop existedTerm ''sourceLanguages'') sl of
                   Inl e \<Rightarrow> Inl e
                 | Inr arr \<Rightarrow> Inr (AList.update ''sourceLanguages'' arr existedTerm)))
      else
        (let e1 = set_prop existedTerm ''multipleSourceLanguages'' (JsBool True);
             e2 = set_prop e1 ''sourceLanguages'' (JsArr []);
             e3 = set_prop e2 ''sourceLanguages'' (JsArr [get_prop e2 ''sourceLanguage'']);
             e4 = set_prop e3 ''sourceLanguages'' (JsArr [get_prop e2 ''sourceLanguage'', sl])
         in Inr (delete_prop e4 ''sourceLanguage'')))"

text \<open>
  Lines 161 to 180: a term whose pattern is in the dictionary changes the object there;
  line 179 writes the text under the name of the language.
\<close>

definition mergeTerm :: "obj \<Rightarrow> vnr_term \<Rightarrow> error + obj" where
  "mergeTerm existedTerm t =
     (case trackSourceLanguage existedTerm (field (sourceLanguage t)) of
        Inl e \<Rightarrow> Inl e
      | Inr e' \<Rightarrow> Inr (set_prop e' (ToString (field (language t))) (field (text' t))))"

text \<open>
  The names that the empty object \<^verbatim>\<open>{}\<close> of line 147 inherits from \<^verbatim>\<open>Object.prototype\<close>.
  For a pattern among them the test of line 159 finds a built-in object, and lines 161 to
  179 then write to that built-in. This development does not follow the converter
  there: such a run ends in \<^const>\<open>InheritedProperty\<close>, and no theorem speaks about it.
\<close>

definition inherited :: "string list" where
  "inherited = [''constructor'', ''__proto__'', ''hasOwnProperty'', ''isPrototypeOf'',
     ''propertyIsEnumerable'', ''toLocaleString'', ''toString'', ''valueOf'',
     ''__defineGetter__'', ''__defineSetter__'', ''__lookupGetter__'', ''__lookupSetter__'']"

text \<open>
  One iteration of the loop of lines 149 to 195, on \<^verbatim>\<open>tempFormat.terms\<close>. The dictionary is
  the list of its own properties in creation order; the objects in it are never shared
  between two keys, so the in-place changes of the source are updates of the entry.
  The test of line 159 uses the pattern itself; lines 190 to 194 store under the
  pattern wrapped in slashes when \<^verbatim>\<open>regex\<close> is the string \<^verbatim>\<open>"true"\<close>. A record that gets
  past the filter has a pattern (lemma \<open>passes_pattern\<close>), so the branch for a missing
  pattern below is never taken.
\<close>

definition storeKey :: "vnr_term \<Rightarrow> string \<Rightarrow> string" where
  "storeKey t p = (if regex t = Some ''true'' then ''/'' @ p @ ''/'' else p)"

definition loopBody :: "(string \<times> obj) list \<Rightarrow> vnr_term \<Rightarrow> error + (string \<times> obj) list" where
  "loopBody terms t =
     (case ignored t of
        Inl e \<Rightarrow> Inl e
      | Inr True \<Rightarrow> Inr terms
      | Inr False \<Rightarrow>
          (case pattern t of
             None \<Rightarrow> Inr terms
           | Some p \<Rightarrow>
               if p \<in> set inherited then Inl InheritedProperty
               else (case map_of terms p of
                  Some existedTerm \<Rightarrow>
                    (case mergeTerm existedTerm t of
                       Inl e \<Rightarrow> Inl e
                     | Inr e' \<Rightarrow> Inr (AList.update p e' terms))
                | None \<Rightarrow> Inr (AList.update (storeKey t p) (oneTerm t) terms))))"

fun tempFormat :: "(string \<times> obj) list \<Rightarrow> vnr_term list \<Rightarrow> error + (string \<times> obj) list" where
  "tempFormat terms [] = Inr terms"
| "tempFormat terms (t # ts) =
     (case loopBody terms t of Inl e \<Rightarrow> Inl e | Inr terms' \<Rightarrow> tempFormat terms' ts)"

text \<open>Line 200: \<^verbatim>\<open>{ pattern: key, ...tempFormat.terms[key] }\<close>.\<close>

definition outputTerm :: "string \<times> obj \<Rightarrow> obj" where
  "outputTerm kv = foldl (\<lambda>acc (k, v). AList.update k v acc) [(''pattern'', JsStr (fst kv))] (snd kv)"

text \<open>
  The whole function, on the array of records: the loop from the empty dictionary, then
  the loop of lines 198 to 201 over the keys in creation order. The result is the array
  \<^verbatim>\<open>yagtFormat.terms\<close>.
\<close>

definition VnrToYagtFormat :: "vnr_term list \<Rightarrow> error + obj list" where
  "VnrToYagtFormat vnrFormat =
     (case tempFormat [] vnrFormat of Inl e \<Rightarrow> Inl e | Inr terms \<Rightarrow> Inr (map outputTerm terms))"

section \<open>Notions used to state the properties\<close>

definition passes :: "vnr_term \<Rightarrow> bool" where
  \<comment> \<open>the record gets past the \<^verbatim>\<open>continue\<close> of line 158\<close>
  "passes t = (ignored t = Inr False)"

definition languageKey :: "vnr_term \<Rightarrow> string" where
  \<comment> \<open>the property name that lines 179 and 185 compute from \<^verbatim>\<open>language\<close>\<close>
  "languageKey t = ToString (field (language t))"

definition forPattern :: "string \<Rightarrow> vnr_term list \<Rightarrow> vnr_term list" where
  \<comment> \<open>the records that get past the filter and whose pattern text is \<open>p\<close>, in input order\<close>
  "forPattern p ts = filter (\<lambda>t. passes t \<and> pattern t = Some p) ts"

definition agrees :: "string \<Rightarrow> vnr_term list \<Rightarrow> bool" where
  \<comment> \<open>on the key \<open>p\<close> the test of line 159 and the store of lines 190 to 194 name the same
      records: none with pattern text \<open>p\<close> is stored elsewhere, none with another
      pattern text is stored under \<open>p\<close>\<close>
  "agrees p ts = list_all (\<lambda>t. case pattern t of None \<Rightarrow> True
       | Some q \<Rightarrow> passes t \<longrightarrow> (storeKey t q = p) = (q = p)) ts"

fun mergeAll :: "obj \<Rightarrow> vnr_term list \<Rightarrow> error + obj" where
  "mergeAll e [] = Inr e"
| "mergeAll e (t # ts) = (case mergeTerm e t of Inl x \<Rightarrow> Inl x | Inr e' \<Rightarrow> mergeAll e' ts)"

definition ins :: "'a list \<Rightarrow> 'a \<Rightarrow> 'a list" where
  \<comment> \<open>append unless present\<close>
  "ins acc x = (if x \<in> set acc then acc else acc @ [x])"

definition firstSeen :: "'a list \<Rightarrow> 'a list" where
  \<comment> \<open>the distinct elements of a list, each at the place of its first occurrence\<close>
  "firstSeen xs = foldl ins [] xs"

text \<open>
  The keys that a run of the loop passes to the stores of lines 191 and 193, in the order
  of the stores.
\<close>

fun storedKeys :: "(string \<times> obj) list \<Rightarrow> vnr_term list \<Rightarrow> string list" where
  "storedKeys terms [] = []"
| "storedKeys terms (t # ts) =
     (case loopBody terms t of
        Inl e \<Rightarrow> []
      | Inr terms' \<Rightarrow>
          (case pattern t of
             None \<Rightarrow> []
           | Some p \<Rightarrow> if passes t \<and> map_of terms p = None then [storeKey t p] else [])
          @ storedKeys terms' ts)"

definition purelyNumeric :: "string \<Rightarrow> bool" where
  \<comment> \<open>the specification's "purely numeric", as in "42": decimal digits and nothing else\<close>
  "purelyNumeric p = (p \<noteq> [] \<and> (\<forall>c \<in> set p. c \<in> set ''0123456789''))"

text \<open>
  How an object records the source languages \<open>ds\<close> (distinct, in first-seen order) of the
  records that made it: with one language the single field, with several the array
  (\<open>listShape\<close>) and the flag (\<open>flagShape\<close>).
\<close>

definition listShape :: "jsval list \<Rightarrow> obj \<Rightarrow> bool" where
  "listShape ds e = (case ds of
       [] \<Rightarrow> False
     | [v] \<Rightarrow> map_of e ''sourceLanguage'' = Some v \<and> map_of e ''sourceLanguages'' = None
     | _ \<Rightarrow> map_of e ''sourceLanguage'' = None \<and> map_of e ''sourceLanguages'' = Some (JsArr ds)
           \<and> truthy (get_prop e ''multipleSourceLanguages''))"

definition flagShape :: "jsval list \<Rightarrow> obj \<Rightarrow> bool" where
  "flagShape ds e = (case ds of
       [] \<Rightarrow> False
     | [v] \<Rightarrow> map_of e ''sourceLanguage'' = Some v \<and> map_of e ''multipleSourceLanguages'' = None
     | _ \<Rightarrow> map_of e ''sourceLanguage'' = None \<and> map_of e ''multipleSourceLanguages'' = Some (JsBool True)
           \<and> map_of e ''sourceLanguages'' \<noteq> None)"

text \<open>
  \<open>builtFrom m fp m'\<close>: starting from the entry \<open>m\<close> of the dictionary, creating an object
  for the first of the records \<open>fp\<close> when there is none and merging the others into it
  ends, without an exception, in the entry \<open>m'\<close>.
\<close>

definition builtFrom :: "obj option \<Rightarrow> vnr_term list \<Rightarrow> obj option \<Rightarrow> bool" where
  "builtFrom m fp m' =
     (case m of
        Some e \<Rightarrow> (case mergeAll e fp of Inr e' \<Rightarrow> m' = Some e' | Inl x \<Rightarrow> False)
      | None \<Rightarrow> (case fp of [] \<Rightarrow> m' = None
                 | t # r \<Rightarrow> (case mergeAll (oneTerm t) r of Inr e' \<Rightarrow> m' = Some e' | Inl x \<Rightarrow> False)))"

text \<open>
  The object stored under the key \<open>p\<close> after the loop has run over the records \<open>ts\<close> (the
  Merged Term), and the element of the output made from it (the Output Term). Both are
  \<^const>\<open>None\<close> when the run raises or when nothing is stored under \<open>p\<close>.
\<close>

definition mergedTerm :: "string \<Rightarrow> vnr_term list \<Rightarrow> obj option" where
  "mergedTerm p ts = (case tempFormat [] ts of Inl x \<Rightarrow> None | Inr terms \<Rightarrow> map_of terms p)"

definition emittedTerm :: "string \<Rightarrow> vnr_term list \<Rightarrow> obj option" where
  "emittedTerm p ts = map_option (\<lambda>e. outputTerm (p, e)) (mergedTerm p ts)"

text \<open>
  The distinct values of \<^verbatim>\<open>sourceLanguage\<close> among the records converted for the pattern
  text \<open>p\<close>, in the order in which they are first seen.
\<close>

definition sourceLanguagesSeen :: "string \<Rightarrow> vnr_term list \<Rightarrow> jsval list" where
  "sourceLanguagesSeen p ts = firstSeen (map (\<lambda>t. field (sourceLanguage t)) (forPattern p ts))"

text \<open>An object whose flag, when set, comes with an array: line 167 then finds its method.\<close>

definition wellTracked :: "obj \<Rightarrow> bool" where
  "wellTracked e =
     (truthy (get_prop e ''multipleSourceLanguages'') \<longrightarrow> (\<exists>xs. get_prop e ''sourceLanguages'' = JsArr xs))"

subsection \<open>Sample inputs\<close>

text \<open>A well-formed translation record, as the loader delivers it for a \<^verbatim>\<open>trans\<close> term.\<close>

definition translation :: "string \<Rightarrow> string \<Rightarrow> string \<Rightarrow> string \<Rightarrow> vnr_term" where
  "translation p sl l txt =
     \<lparr>sourceLanguage = Some sl, language = Some l, text' = Some txt, pattern = Some p,
      regex = None, comment = None, dollar = Some [(''type'', ''trans'')]\<rparr>"

definition sample_order :: "vnr_term list" where
  "sample_order =
     [translation ''zeta'' ''ja'' ''en'' ''z'',
      (translation ''alpha'' ''ja'' ''en'' ''a'')\<lparr>regex := Some ''true''\<rparr>,
      translation ''zeta'' ''ja'' ''fr'' ''zz'']"

definition sample_merge :: "vnr_term list" where
  "sample_merge =
     [(translation ''foo'' ''ja'' ''en'' ''a'')\<lparr>comment := Some ''first''\<rparr>,
      (translation ''bar'' ''ja'' ''en'' ''x'')\<lparr>regex := Some ''true''\<rparr>,
      (translation ''foo'' ''en'' ''fr'' ''b'')\<lparr>comment := Some ''second''\<rparr>,
      translation ''foo'' ''ja'' ''en'' ''c'',
      translation ''foo'' ''zh'' ''de'' ''d'']"

definition sample_plain :: "vnr_term list" where
  "sample_plain =
     [translation ''zeta'' ''ja'' ''en'' ''z'',
      translation ''7'' ''ja'' ''en'' ''seven'',
      translation ''alpha'' ''ja'' ''en'' ''a'',
      translation ''zeta'' ''ja'' ''fr'' ''zz'']"

definition sample_malformed :: "vnr_term list" where
  "sample_malformed =
     [\<lparr>sourceLanguage = None, language = None, text' = None, pattern = Some ''lonely'',
       regex = None, comment = None, dollar = Some []\<rparr>,
      \<lparr>sourceLanguage = None, language = Some ''en'', text' = Some ''hi'', pattern = Some ''hello'',
       regex = None, comment = None, dollar = Some [(''id'', ''7'')]\<rparr>,
      \<lparr>sourceLanguage = Some ''ja'', language = Some ''en'', text' = Some ''x'', pattern = None,
       regex = None, comment = None, dollar = Some [(''type'', ''trans'')]\<rparr>]"

section \<open>The filter and isNaN\<close>

lemma js_not_never_a_string: "strict_equals (js_not v) (JsStr s) = False"
  by (simp add: strict_equals_def js_not_def)

lemma ignored_cases:
  "ignored t = (case dollar t of None \<Rightarrow> Inl TypeError
     | Some attrs \<Rightarrow> Inr (\<not> (\<exists>txt p. text' t = Some txt \<and> txt \<noteq> [] \<and> pattern t = Some p \<and> p \<noteq> [] \<and> isNaN p \<and> 1 < length p)))"
  by (auto simp: ignored_def js_not_never_a_string truthy_def field_def split: option.splits)

lemma passes_iff:
  "passes t \<longleftrightarrow> dollar t \<noteq> None \<and> (\<exists>txt p. text' t = Some txt \<and> txt \<noteq> [] \<and> pattern t = Some p \<and> isNaN p \<and> 1 < length p)"
  by (auto simp: passes_def ignored_cases split: option.splits)

lemma takeWhile_all: "list_all P xs \<Longrightarrow> takeWhile P xs = xs"
  by (induction xs) auto

lemma dropWhile_all: "list_all P xs \<Longrightarrow> dropWhile P xs = []"
  by (induction xs) auto

lemma digit_not_space: "DecimalDigit c \<Longrightarrow> \<not> StrWhiteSpaceChar c"
  by (auto simp: DecimalDigit_def StrWhiteSpaceChar_def)

lemma digits_numeric: assumes "DecimalDigits p" shows "StringNumericLiteral p"
proof -
  from assms obtain c r where p: "p = c # r" and c: "DecimalDigit c" and all: "list_all DecimalDigit p"
    by (cases p) (auto simp: DecimalDigits_def)
  obtain ys y where snoc: "p = ys @ [y]" using p by (metis rev_exhaust list.distinct(1))
  have "DecimalDigit y" using all snoc by simp
  then have 2: "dropWhile StrWhiteSpaceChar (rev p) = rev p"
    using snoc by (simp add: digit_not_space)
  have 1: "dropWhile StrWhiteSpaceChar p = p" using p c by (simp add: digit_not_space)
  have 3: "StrUnsignedDecimalLiteral p"
    using all p by (simp add: StrUnsignedDecimalLiteral_def takeWhile_all dropWhile_all Let_def)
  have "c \<noteq> CHR ''+'' \<and> c \<noteq> CHR ''-''" using c by (auto simp: DecimalDigit_def)
  then have "StrDecimalLiteral p" using 3 p by (simp add: StrDecimalLiteral_def)
  then show ?thesis by (simp add: StringNumericLiteral_def 1 2)
qed

lemma purelyNumeric_not_NaN: "purelyNumeric p \<Longrightarrow> \<not> isNaN p"
  using digits_numeric[of p] by (simp add: purelyNumeric_def DecimalDigits_def DecimalDigit_def isNaN_def list_all_iff)

section \<open>Objects and the merge of one record\<close>

lemma map_of_set_prop:
  "map_of (set_prop ob k v) k' =
     (if k = ''__proto__'' then map_of ob k' else if k' = k then Some v else map_of ob k')"
  by (simp add: set_prop_def AList.update_conv')

lemma map_of_delete_prop: "map_of (delete_prop ob k) k' = (if k' = k then None else map_of ob k')"
  by (simp add: delete_prop_def AList.delete_conv')

lemma distinct_set_prop: "distinct (map fst ob) \<Longrightarrow> distinct (map fst (set_prop ob k v))"
  by (simp add: set_prop_def AList.distinct_update)

lemma distinct_delete_prop: "distinct (map fst ob) \<Longrightarrow> distinct (map fst (delete_prop ob k))"
  by (simp add: delete_prop_def AList.distinct_delete)

lemma distinct_oneTerm: "distinct (map fst (oneTerm t))"
  by (simp add: oneTerm_def Let_def distinct_set_prop)

text \<open>What lines 162 to 178 can do to an object: nothing, one push, or the change of shape.\<close>

lemma trackSourceLanguage_cases:
  assumes "trackSourceLanguage e sl = Inr e'"
  obtains (same) "e' = e"
  | (pushed) xs where "truthy (get_prop e ''multipleSourceLanguages'')"
      "get_prop e ''sourceLanguages'' = JsArr xs" "e' = AList.update ''sourceLanguages'' (JsArr (xs @ [sl])) e"
  | (first) "\<not> truthy (get_prop e ''multipleSourceLanguages'')"
      "e' = delete_prop (set_prop (set_prop e ''multipleSourceLanguages'' (JsBool True)) ''sourceLanguages''
              (JsArr [get_prop e ''sourceLanguage'', sl])) ''sourceLanguage''"
proof (cases "strict_equals (get_prop e ''sourceLanguage'') sl")
  case True
  with assms have "e' = e" by (simp add: trackSourceLanguage_def)
  then show ?thesis by (rule same)
next
  case ne: False
  show ?thesis
  proof (cases "truthy (get_prop e ''multipleSourceLanguages'')")
    case True
    show ?thesis
    proof (cases "includes' (get_prop e ''sourceLanguages'') sl")
      case (Inl x)
      with assms ne True show ?thesis by (simp add: trackSourceLanguage_def)
    next
      case (Inr b)
      show ?thesis
      proof (cases b)
        case True
        with assms ne \<open>truthy _\<close> Inr have "e' = e" by (simp add: trackSourceLanguage_def)
        then show ?thesis by (rule same)
      next
        case False
        with assms ne True Inr obtain arr where
          arr: "push (get_prop e ''sourceLanguages'') sl = Inr arr" "e' = AList.update ''sourceLanguages'' arr e"
          by (auto simp: trackSourceLanguage_def split: sum.splits)
        then obtain xs where "get_prop e ''sourceLanguages'' = JsArr xs" "arr = JsArr (xs @ [sl])"
          by (auto simp: push_def split: jsval.splits)
        with arr True show ?thesis by (auto intro: pushed)
      qed
    qed
  next
    case False
    with assms ne have "e' = delete_prop (set_prop (set_prop e ''multipleSourceLanguages'' (JsBool True)) ''sourceLanguages''
              (JsArr [get_prop e ''sourceLanguage'', sl])) ''sourceLanguage''"
      by (simp add: trackSourceLanguage_def Let_def set_prop_def get_prop_def AList.update_conv')
    with False show ?thesis by (rule first)
  qed
qed

lemma distinct_trackSourceLanguage:
  "trackSourceLanguage e sl = Inr e' \<Longrightarrow> distinct (map fst e) \<Longrightarrow> distinct (map fst e')"
  by (erule trackSourceLanguage_cases)
     (simp_all add: distinct_set_prop distinct_delete_prop AList.distinct_update)

lemma distinct_mergeTerm:
  "mergeTerm e t = Inr e' \<Longrightarrow> distinct (map fst e) \<Longrightarrow> distinct (map fst e')"
  by (auto simp: mergeTerm_def distinct_set_prop split: sum.splits dest: distinct_trackSourceLanguage)

lemma trackSourceLanguage_other:
  assumes "trackSourceLanguage e sl = Inr e'"
    and "k \<noteq> ''sourceLanguage''" "k \<noteq> ''sourceLanguages''" "k \<noteq> ''multipleSourceLanguages''"
  shows "map_of e' k = map_of e k"
  using assms(1)
  by (rule trackSourceLanguage_cases)
     (simp_all add: assms(2-) map_of_set_prop map_of_delete_prop AList.update_conv')

lemma trackSourceLanguage_truthy_flag:
  assumes "trackSourceLanguage e sl = Inr e'" "map_of e ''multipleSourceLanguages'' = Some v" "truthy v"
  shows "map_of e' ''multipleSourceLanguages'' = Some v"
  using assms(1)
  by (rule trackSourceLanguage_cases)
     (simp_all add: assms(2-) map_of_set_prop map_of_delete_prop AList.update_conv' get_prop_def)

lemma firstSeen_foldl: "firstSeen xs = foldl ins [] xs"
  by (simp add: firstSeen_def)

lemma foldl_ins_nonempty: "acc \<noteq> [] \<Longrightarrow> foldl ins acc xs \<noteq> []"
  by (induction xs arbitrary: acc) (auto simp: ins_def)

lemma set_foldl_ins: "set (foldl ins acc xs) = set acc \<union> set xs"
  by (induction xs arbitrary: acc) (auto simp: ins_def)

lemma distinct_foldl_ins: "distinct acc \<Longrightarrow> distinct (foldl ins acc xs)"
  by (induction xs arbitrary: acc) (auto simp: ins_def)

lemma set_firstSeen: "set (firstSeen xs) = set xs"
  by (simp add: firstSeen_foldl set_foldl_ins)

lemma distinct_firstSeen: "distinct (firstSeen xs)"
  by (simp add: firstSeen_foldl distinct_foldl_ins)

lemma foldl_ins_append_acc:
  "foldl ins (acc @ bs) xs = acc @ foldl ins bs (filter (\<lambda>x. x \<notin> set acc) xs)"
  by (induction xs arbitrary: bs) (auto simp: ins_def)

lemma firstSeen_Cons: "firstSeen (x # xs) = x # firstSeen (filter (\<lambda>y. y \<noteq> x) xs)"
  using foldl_ins_append_acc[of "[x]" "[]" xs] by (simp add: firstSeen_foldl ins_def)

lemma firstSeen_Nil: "firstSeen [] = []"
  by (simp add: firstSeen_def)

text \<open>The field that line 179 writes, and the fields it leaves alone.\<close>

lemma mergeTerm_sets_language:
  assumes "mergeTerm e t = Inr e'" "languageKey t \<noteq> ''__proto__''"
  shows "map_of e' (languageKey t) = Some (field (text' t))"
proof -
  from assms(1) obtain e1 where "e' = set_prop e1 (languageKey t) (field (text' t))"
    by (auto simp: mergeTerm_def languageKey_def split: sum.splits)
  with assms(2) show ?thesis by (simp add: map_of_set_prop)
qed

lemma oneTerm_sets_language:
  assumes "languageKey t \<noteq> ''__proto__''" "languageKey t \<noteq> ''comment''"
  shows "map_of (oneTerm t) (languageKey t) = Some (field (text' t))"
  using assms by (simp add: oneTerm_def Let_def map_of_set_prop languageKey_def)

lemma mergeTerm_keeps_field:
  assumes "mergeTerm e t = Inr e'" "languageKey t \<noteq> l"
    and "l \<noteq> ''sourceLanguage''" "l \<noteq> ''sourceLanguages''"
    and "map_of e l = Some v" "truthy v"
  shows "map_of e' l = Some v"
proof -
  from assms(1) obtain e1 where e1: "trackSourceLanguage e (field (sourceLanguage t)) = Inr e1"
    and e': "e' = set_prop e1 (languageKey t) (field (text' t))"
    by (auto simp: mergeTerm_def languageKey_def split: sum.splits)
  have "map_of e1 l = Some v"
  proof (cases "l = ''multipleSourceLanguages''")
    case True
    with trackSourceLanguage_truthy_flag[OF e1] assms(5,6) show ?thesis by simp
  next
    case False
    with trackSourceLanguage_other[OF e1, of l] assms(3,4,5) show ?thesis by simp
  qed
  with e' assms(2) show ?thesis by (simp add: map_of_set_prop)
qed

lemma mergeTerm_keeps_comment:
  assumes "mergeTerm e t = Inr e'" "languageKey t \<noteq> ''comment''"
  shows "map_of e' ''comment'' = map_of e ''comment''"
proof -
  from assms(1) obtain e1 where e1: "trackSourceLanguage e (field (sourceLanguage t)) = Inr e1"
    and e': "e' = set_prop e1 (languageKey t) (field (text' t))"
    by (auto simp: mergeTerm_def languageKey_def split: sum.splits)
  from trackSourceLanguage_other[OF e1, of "''comment''"] have "map_of e1 ''comment'' = map_of e ''comment''"
    by simp
  with e' assms(2) show ?thesis by (simp add: map_of_set_prop)
qed

lemma oneTerm_comment:
  assumes "languageKey t \<noteq> ''comment''"
  shows "map_of (oneTerm t) ''comment'' = (if truthy (field (comment t)) then Some (field (comment t)) else None)"
  using assms by (simp add: oneTerm_def Let_def map_of_set_prop languageKey_def)

text \<open>The shapes are kept by the merge of a record, whenever the merge returns.\<close>

lemma track_from_single:
  assumes "trackSourceLanguage e sl = Inr e1" "map_of e ''sourceLanguage'' = Some v"
    and "map_of e ''sourceLanguages'' = None \<or> map_of e ''multipleSourceLanguages'' = None"
  shows "(sl = v \<and> e1 = e) \<or>
         (sl \<noteq> v \<and> map_of e1 ''sourceLanguage'' = None \<and> map_of e1 ''sourceLanguages'' = Some (JsArr [v, sl])
            \<and> map_of e1 ''multipleSourceLanguages'' = Some (JsBool True))"
proof (cases "sl = v")
  case True
  with assms(1,2) show ?thesis by (simp add: trackSourceLanguage_def get_prop_def strict_equals_def)
next
  case False
  with assms(2) have ne: "\<not> strict_equals (get_prop e ''sourceLanguage'') sl"
    by (auto simp: get_prop_def strict_equals_def)
  have nf: "\<not> truthy (get_prop e ''multipleSourceLanguages'')"
  proof
    assume t: "truthy (get_prop e ''multipleSourceLanguages'')"
    then have "map_of e ''multipleSourceLanguages'' \<noteq> None"
      by (auto simp: get_prop_def truthy_def split: option.splits)
    with assms(3) have "get_prop e ''sourceLanguages'' = JsUndefined" by (simp add: get_prop_def)
    with assms(1) ne t show False by (simp add: trackSourceLanguage_def includes'_def)
  qed
  with assms(1) ne have "e1 = delete_prop (set_prop (set_prop e ''multipleSourceLanguages'' (JsBool True))
       ''sourceLanguages'' (JsArr [get_prop e ''sourceLanguage'', sl])) ''sourceLanguage''"
    by (simp add: trackSourceLanguage_def Let_def set_prop_def get_prop_def AList.update_conv')
  with False assms(2) show ?thesis by (simp add: map_of_delete_prop map_of_set_prop get_prop_def)
qed

lemma track_from_several:
  assumes "trackSourceLanguage e sl = Inr e1" "map_of e ''sourceLanguage'' = None"
    and "truthy (get_prop e ''multipleSourceLanguages'')"
  shows "e1 = e \<or> (\<exists>xs. map_of e ''sourceLanguages'' = Some (JsArr xs) \<and> sl \<notin> set xs \<and> sl \<noteq> JsUndefined \<and>
           e1 = AList.update ''sourceLanguages'' (JsArr (xs @ [sl])) e)"
proof (cases "strict_equals (get_prop e ''sourceLanguage'') sl")
  case True
  with assms(1) show ?thesis by (simp add: trackSourceLanguage_def)
next
  case False
  with assms(2) have sl: "sl \<noteq> JsUndefined" by (auto simp: get_prop_def strict_equals_def)
  show ?thesis
  proof (cases "get_prop e ''sourceLanguages''")
    case (JsArr xs)
    then have m: "map_of e ''sourceLanguages'' = Some (JsArr xs)"
      by (auto simp: get_prop_def split: option.splits)
    have "push (JsArr xs) sl = Inr (JsArr (xs @ [sl]))" by (simp add: push_def)
    with assms(1,3) False JsArr sl m show ?thesis
      by (cases "sl \<in> set xs") (simp_all add: trackSourceLanguage_def includes'_def)
  next
    case JsUndefined
    with assms(1,3) False show ?thesis by (simp add: trackSourceLanguage_def includes'_def)
  next
    case (JsBool b)
    with assms(1,3) False show ?thesis by (simp add: trackSourceLanguage_def includes'_def)
  next
    case (JsStr s)
    with assms(1,3) False show ?thesis
      by (auto simp: trackSourceLanguage_def includes'_def push_def split: if_splits bool.splits)
  qed
qed

lemma track_into_array:
  assumes "trackSourceLanguage e sl = Inr e1" "map_of e ''sourceLanguage'' = None"
    and "truthy (get_prop e ''multipleSourceLanguages'')"
    and "map_of e ''sourceLanguages'' = Some (JsArr xs)" "sl \<noteq> JsUndefined"
  shows "e1 = (if sl \<in> set xs then e else AList.update ''sourceLanguages'' (JsArr (xs @ [sl])) e)"
proof -
  have ne: "\<not> strict_equals (get_prop e ''sourceLanguage'') sl"
    using assms(2,5) by (auto simp: get_prop_def strict_equals_def)
  have g: "get_prop e ''sourceLanguages'' = JsArr xs" using assms(4) by (simp add: get_prop_def)
  have "push (JsArr xs) sl = Inr (JsArr (xs @ [sl]))" by (simp add: push_def)
  with assms(1,3) ne g show ?thesis
    by (cases "sl \<in> set xs") (simp_all add: trackSourceLanguage_def includes'_def)
qed

lemma mergeTerm_parts:
  assumes "mergeTerm e t = Inr e'"
  obtains e1 where "trackSourceLanguage e (field (sourceLanguage t)) = Inr e1"
    "e' = set_prop e1 (languageKey t) (field (text' t))"
  using assms by (auto simp: mergeTerm_def languageKey_def split: sum.splits)

lemma listShape_step:
  assumes "listShape ds e" "mergeTerm e t = Inr e'" "sourceLanguage t = Some s"
    and "languageKey t \<noteq> ''sourceLanguage''" "languageKey t \<noteq> ''sourceLanguages''"
    and "truthy (field (text' t))"
  shows "listShape (ins ds (JsStr s)) e'"
proof -
  from assms(2) obtain e1 where e1: "trackSourceLanguage e (JsStr s) = Inr e1"
    and e': "e' = set_prop e1 (languageKey t) (field (text' t))"
    using assms(3) by (auto elim!: mergeTerm_parts simp: field_def)
  have keep: "map_of e' ''sourceLanguage'' = map_of e1 ''sourceLanguage''"
    "map_of e' ''sourceLanguages'' = map_of e1 ''sourceLanguages''"
    using e' assms(4,5) by (auto simp: map_of_set_prop)
  have flag: "truthy (get_prop e1 ''multipleSourceLanguages'') \<Longrightarrow> truthy (get_prop e' ''multipleSourceLanguages'')"
    using e' assms(6) by (auto simp: get_prop_def map_of_set_prop)
  show ?thesis
  proof (cases ds)
    case Nil
    with assms(1) show ?thesis by (simp add: listShape_def)
  next
    case (Cons v vs)
    show ?thesis
    proof (cases vs)
      case Nil
      with Cons assms(1) have s: "map_of e ''sourceLanguage'' = Some v" "map_of e ''sourceLanguages'' = None"
        by (simp_all add: listShape_def)
      from track_from_single[OF e1 s(1)] s(2)
      consider "JsStr s = v" "e1 = e"
        | "JsStr s \<noteq> v" "map_of e1 ''sourceLanguage'' = None"
          "map_of e1 ''sourceLanguages'' = Some (JsArr [v, JsStr s])"
          "map_of e1 ''multipleSourceLanguages'' = Some (JsBool True)" by auto
      then show ?thesis
      proof cases
        case 1
        with s keep Cons Nil show ?thesis by (simp add: listShape_def ins_def)
      next
        case 2
        from 2(4) have "truthy (get_prop e1 ''multipleSourceLanguages'')" by (simp add: get_prop_def truthy_def)
        with 2 keep flag Cons Nil show ?thesis by (simp add: listShape_def ins_def)
      qed
    next
      case (Cons w ws)
      with \<open>ds = v # vs\<close> assms(1) have m: "map_of e ''sourceLanguage'' = None"
        "map_of e ''sourceLanguages'' = Some (JsArr ds)" "truthy (get_prop e ''multipleSourceLanguages'')"
        by (simp_all add: listShape_def)
      from track_into_array[OF e1 m(1,3,2)]
      have e1_eq: "e1 = (if JsStr s \<in> set ds then e else AList.update ''sourceLanguages'' (JsArr (ds @ [JsStr s])) e)"
        by simp
      show ?thesis
      proof (cases "JsStr s \<in> set ds")
        case True
        with e1_eq m keep flag Cons \<open>ds = v # vs\<close> show ?thesis by (simp add: listShape_def ins_def)
      next
        case False
        with e1_eq have "map_of e1 ''sourceLanguage'' = None"
          "map_of e1 ''sourceLanguages'' = Some (JsArr (ds @ [JsStr s]))"
          "truthy (get_prop e1 ''multipleSourceLanguages'')"
          using m by (simp_all add: AList.update_conv' get_prop_def)
        with False keep flag Cons \<open>ds = v # vs\<close> show ?thesis
          by (simp add: listShape_def ins_def split: list.splits)
      qed
    qed
  qed
qed

lemma flagShape_step:
  assumes "flagShape ds e" "mergeTerm e t = Inr e'"
    and "languageKey t \<noteq> ''sourceLanguage''" "languageKey t \<noteq> ''multipleSourceLanguages''"
  shows "flagShape (ins ds (field (sourceLanguage t))) e'"
proof -
  from assms(2) obtain e1 where e1: "trackSourceLanguage e (field (sourceLanguage t)) = Inr e1"
    and e': "e' = set_prop e1 (languageKey t) (field (text' t))" by (rule mergeTerm_parts)
  have keep: "map_of e' ''sourceLanguage'' = map_of e1 ''sourceLanguage''"
    "map_of e' ''multipleSourceLanguages'' = map_of e1 ''multipleSourceLanguages''"
    "map_of e1 ''sourceLanguages'' \<noteq> None \<Longrightarrow> map_of e' ''sourceLanguages'' \<noteq> None"
    using e' assms(3,4) by (auto simp: map_of_set_prop)
  let ?sl = "field (sourceLanguage t)"
  show ?thesis
  proof (cases ds)
    case Nil
    with assms(1) show ?thesis by (simp add: flagShape_def)
  next
    case (Cons v vs)
    show ?thesis
    proof (cases vs)
      case Nil
      with Cons assms(1) have s: "map_of e ''sourceLanguage'' = Some v" "map_of e ''multipleSourceLanguages'' = None"
        by (simp_all add: flagShape_def)
      from track_from_single[OF e1 s(1)] s(2)
      consider "?sl = v" "e1 = e"
        | "?sl \<noteq> v" "map_of e1 ''sourceLanguage'' = None"
          "map_of e1 ''sourceLanguages'' = Some (JsArr [v, ?sl])"
          "map_of e1 ''multipleSourceLanguages'' = Some (JsBool True)" by auto
      then show ?thesis
      proof cases
        case 1
        with s keep Cons Nil show ?thesis by (simp add: flagShape_def ins_def)
      next
        case 2
        with keep Cons Nil show ?thesis by (simp add: flagShape_def ins_def)
      qed
    next
      case (Cons w ws)
      with \<open>ds = v # vs\<close> assms(1) have m: "map_of e ''sourceLanguage'' = None"
        "map_of e ''multipleSourceLanguages'' = Some (JsBool True)" "map_of e ''sourceLanguages'' \<noteq> None"
        by (simp_all add: flagShape_def)
      from m(2) have t: "truthy (get_prop e ''multipleSourceLanguages'')" by (simp add: get_prop_def truthy_def)
      from track_from_several[OF e1 m(1) t] m
      have "map_of e1 ''sourceLanguage'' = None" "map_of e1 ''multipleSourceLanguages'' = Some (JsBool True)"
        "map_of e1 ''sourceLanguages'' \<noteq> None"
        by (auto simp: AList.update_conv')
      with keep have "map_of e' ''sourceLanguage'' = None" "map_of e' ''multipleSourceLanguages'' = Some (JsBool True)"
        "map_of e' ''sourceLanguages'' \<noteq> None" by simp_all
      moreover have "\<exists>a b cs. ins ds ?sl = a # b # cs"
        using Cons \<open>ds = v # vs\<close> by (auto simp: ins_def)
      ultimately show ?thesis by (auto simp: flagShape_def)
    qed
  qed
qed

lemma oneTerm_listShape:
  assumes "languageKey t \<noteq> ''sourceLanguage''" "languageKey t \<noteq> ''sourceLanguages''"
  shows "listShape [field (sourceLanguage t)] (oneTerm t)"
  using assms by (auto simp: listShape_def oneTerm_def Let_def map_of_set_prop languageKey_def)

lemma oneTerm_flagShape:
  assumes "languageKey t \<noteq> ''sourceLanguage''" "languageKey t \<noteq> ''multipleSourceLanguages''"
  shows "flagShape [field (sourceLanguage t)] (oneTerm t)"
  using assms by (auto simp: flagShape_def oneTerm_def Let_def map_of_set_prop languageKey_def)

lemma mergeAll_listShape:
  assumes "mergeAll e ts = Inr e'" "listShape ds e"
    and "\<forall>t \<in> set ts. sourceLanguage t \<noteq> None \<and> languageKey t \<noteq> ''sourceLanguage''
           \<and> languageKey t \<noteq> ''sourceLanguages'' \<and> truthy (field (text' t))"
  shows "listShape (foldl ins ds (map (\<lambda>t. field (sourceLanguage t)) ts)) e'"
  using assms
proof (induction ts arbitrary: ds e)
  case Nil
  then show ?case by simp
next
  case (Cons t ts)
  from Cons.prems(1) obtain e1 where e1: "mergeTerm e t = Inr e1" and rest: "mergeAll e1 ts = Inr e'"
    by (auto split: sum.splits)
  from Cons.prems(3) obtain s where s: "sourceLanguage t = Some s" by auto
  from Cons.prems(3) have "listShape (ins ds (JsStr s)) e1"
    by (intro listShape_step[OF Cons.prems(2) e1 s]) simp_all
  from Cons.IH[OF rest this] Cons.prems(3) s show ?case by (simp add: field_def)
qed

lemma mergeAll_flagShape:
  assumes "mergeAll e ts = Inr e'" "flagShape ds e"
    and "\<forall>t \<in> set ts. languageKey t \<noteq> ''sourceLanguage'' \<and> languageKey t \<noteq> ''multipleSourceLanguages''"
  shows "flagShape (foldl ins ds (map (\<lambda>t. field (sourceLanguage t)) ts)) e'"
  using assms
proof (induction ts arbitrary: ds e)
  case Nil
  then show ?case by simp
next
  case (Cons t ts)
  from Cons.prems(1) obtain e1 where e1: "mergeTerm e t = Inr e1" and rest: "mergeAll e1 ts = Inr e'"
    by (auto split: sum.splits)
  from Cons.prems(3) have "flagShape (ins ds (field (sourceLanguage t))) e1"
    by (intro flagShape_step[OF Cons.prems(2) e1]) simp_all
  from Cons.IH[OF rest this] Cons.prems(3) show ?case by simp
qed

lemma map_of_foldl_update:
  "distinct (map fst e) \<Longrightarrow>
   map_of (foldl (\<lambda>acc (k, v). AList.update k v acc) acc e) k =
     (case map_of e k of Some v \<Rightarrow> Some v | None \<Rightarrow> map_of acc k)"
proof (induction e arbitrary: acc)
  case Nil
  then show ?case by simp
next
  case (Cons kv e)
  obtain k1 v1 where kv: "kv = (k1, v1)" by (cases kv)
  from Cons.prems kv have d: "distinct (map fst e)" and n: "k1 \<notin> fst ` set e" by auto
  from n have "map_of e k1 = None" by (simp add: map_of_eq_None_iff)
  with Cons.IH[OF d, of "AList.update k1 v1 acc"] kv show ?case
    by (auto simp: AList.update_conv' split: option.splits)
qed

lemma distinct_foldl_update:
  "distinct (map fst acc) \<Longrightarrow> distinct (map fst (foldl (\<lambda>acc (k, v). AList.update k v acc) acc e))"
  by (induction e arbitrary: acc) (auto simp: AList.distinct_update)

lemma map_of_outputTerm:
  "distinct (map fst e) \<Longrightarrow>
   map_of (outputTerm (p, e)) k =
     (case map_of e k of Some v \<Rightarrow> Some v | None \<Rightarrow> if k = ''pattern'' then Some (JsStr p) else None)"
  by (auto simp: outputTerm_def map_of_foldl_update split: option.splits)

lemma distinct_outputTerm: "distinct (map fst (outputTerm kv))"
  by (simp add: outputTerm_def distinct_foldl_update)

lemma one_field:
  assumes "distinct (map fst ob)" "map_of ob l = Some v"
  shows "length (filter (\<lambda>kv. fst kv = l) ob) = 1"
  using assms
proof (induction ob)
  case Nil
  then show ?case by simp
next
  case (Cons a ob)
  show ?case
  proof (cases "fst a = l")
    case True
    with Cons.prems have "l \<notin> fst ` set ob" by auto
    then have "filter (\<lambda>kv. fst kv = l) ob = []" by (auto simp: filter_empty_conv)
    with True show ?thesis by simp
  next
    case False
    with Cons show ?thesis by (cases a) auto
  qed
qed

lemma distinct_mergeAll:
  "mergeAll e ts = Inr e' \<Longrightarrow> distinct (map fst e) \<Longrightarrow> distinct (map fst e')"
  by (induction ts arbitrary: e) (auto split: sum.splits dest: distinct_mergeTerm)

lemma mergeAll_comment:
  "mergeAll e ts = Inr e' \<Longrightarrow> \<forall>t \<in> set ts. languageKey t \<noteq> ''comment'' \<Longrightarrow>
   map_of e' ''comment'' = map_of e ''comment''"
  by (induction ts arbitrary: e) (auto split: sum.splits dest: mergeTerm_keeps_comment)

lemma mergeAll_language:
  assumes "mergeAll e ts = Inr e'" "l \<noteq> ''sourceLanguage''" "l \<noteq> ''sourceLanguages''" "l \<noteq> ''__proto__''"
    and "\<forall>t \<in> set ts. truthy (field (text' t))"
  shows "case filter (\<lambda>t. languageKey t = l) ts of
           [] \<Rightarrow> (\<forall>v. map_of e l = Some v \<longrightarrow> truthy v \<longrightarrow> map_of e' l = Some v)
         | t # r \<Rightarrow> map_of e' l = Some (field (text' (last (t # r))))"
  using assms(1,5)
proof (induction ts arbitrary: e)
  case Nil
  then show ?case by simp
next
  case (Cons t ts)
  from Cons.prems obtain e1 where e1: "mergeTerm e t = Inr e1" and rest: "mergeAll e1 ts = Inr e'"
    by (auto split: sum.splits)
  from Cons.prems have tr: "\<forall>t \<in> set ts. truthy (field (text' t))" and tt: "truthy (field (text' t))" by auto
  note IH = Cons.IH[OF rest tr]
  show ?case
  proof (cases "languageKey t = l")
    case True
    with mergeTerm_sets_language[OF e1] assms(4) have here: "map_of e1 l = Some (field (text' t))" by simp
    show ?thesis
    proof (cases "filter (\<lambda>t. languageKey t = l) ts")
      case Nil
      with IH here tt have "map_of e' l = Some (field (text' t))" by simp
      with True Nil show ?thesis by simp
    next
      case (Cons a list)
      with IH True show ?thesis by simp
    qed
  next
    case False
    have keep: "\<And>v. map_of e l = Some v \<Longrightarrow> truthy v \<Longrightarrow> map_of e1 l = Some v"
      using mergeTerm_keeps_field[OF e1 False assms(2,3)] by blast
    show ?thesis
    proof (cases "filter (\<lambda>t. languageKey t = l) ts")
      case Nil
      with IH False keep show ?thesis by auto
    next
      case (Cons a list)
      with IH False show ?thesis by simp
    qed
  qed
qed

lemma created_language:
  assumes "mergeAll (oneTerm t0) r = Inr e'"
    and "l \<notin> set [''sourceLanguage'', ''sourceLanguages'', ''comment'', ''__proto__'']"
    and "\<forall>t \<in> set (t0 # r). truthy (field (text' t))"
    and "filter (\<lambda>t. languageKey t = l) (t0 # r) \<noteq> []"
  shows "map_of e' l = Some (field (text' (last (filter (\<lambda>t. languageKey t = l) (t0 # r)))))"
proof -
  from assms(2) have l: "l \<noteq> ''sourceLanguage''" "l \<noteq> ''sourceLanguages''" "l \<noteq> ''__proto__''" "l \<noteq> ''comment''"
    by auto
  from assms(3) have tr: "\<forall>t \<in> set r. truthy (field (text' t))" by simp
  note M = mergeAll_language[OF assms(1) l(1,2,3) tr]
  show ?thesis
  proof (cases "filter (\<lambda>t. languageKey t = l) r")
    case Nil
    with assms(4) have t0: "languageKey t0 = l" by (auto split: if_splits)
    with oneTerm_sets_language[of t0] l have "map_of (oneTerm t0) l = Some (field (text' t0))" by simp
    with M Nil assms(3) have "map_of e' l = Some (field (text' t0))" by simp
    with Nil t0 show ?thesis by simp
  next
    case (Cons a list)
    with M show ?thesis by simp
  qed
qed

section \<open>The loop\<close>

lemma passes_pattern: "passes t \<Longrightarrow> \<exists>p txt. pattern t = Some p \<and> text' t = Some txt \<and> txt \<noteq> []"
  by (auto simp: passes_iff)

lemma passes_truthy_text: "passes t \<Longrightarrow> truthy (field (text' t))"
  by (auto simp: passes_iff truthy_def field_def)

lemma loopBody_skip: "\<not> passes t \<Longrightarrow> loopBody terms t = (if dollar t = None then Inl TypeError else Inr terms)"
  by (auto simp: loopBody_def passes_def ignored_cases split: option.splits)

lemma loopBody_passes:
  assumes "passes t" "pattern t = Some q"
  shows "loopBody terms t =
     (if q \<in> set inherited then Inl InheritedProperty
      else case map_of terms q of
             Some e \<Rightarrow> (case mergeTerm e t of Inl x \<Rightarrow> Inl x | Inr e1 \<Rightarrow> Inr (AList.update q e1 terms))
           | None \<Rightarrow> Inr (AList.update (storeKey t q) (oneTerm t) terms))"
  using assms by (simp add: loopBody_def passes_def)

lemma tempFormat_append:
  "tempFormat terms (xs @ ys) = (case tempFormat terms xs of Inl e \<Rightarrow> Inl e | Inr t1 \<Rightarrow> tempFormat t1 ys)"
  by (induction xs arbitrary: terms) (auto split: sum.splits)

lemma agrees_Cons: "agrees p (t # ts) \<Longrightarrow> agrees p ts"
  by (simp add: agrees_def)

lemma agrees_head: "agrees p (t # ts) \<Longrightarrow> passes t \<Longrightarrow> pattern t = Some q \<Longrightarrow> (storeKey t q = p) = (q = p)"
  by (simp add: agrees_def)

lemma agrees_take: "agrees p ts \<Longrightarrow> agrees p (take n ts)"
  by (auto simp: agrees_def list_all_iff dest: in_set_takeD)

lemma builtFrom_Nil: "builtFrom m [] m' = (m' = m)"
  by (auto simp: builtFrom_def split: option.splits)

lemma builtFrom_create: "builtFrom None (t # r) m' = builtFrom (Some (oneTerm t)) r m'"
  by (simp add: builtFrom_def)

lemma builtFrom_merge: "mergeTerm e t = Inr e1 \<Longrightarrow> builtFrom (Some e) (t # r) m' = builtFrom (Some e1) r m'"
  by (simp add: builtFrom_def)

lemma projection:
  assumes "tempFormat terms ts = Inr terms'" "agrees p ts"
  shows "builtFrom (map_of terms p) (forPattern p ts) (map_of terms' p)"
  using assms
proof (induction ts arbitrary: terms)
  case Nil
  then show ?case by (simp add: forPattern_def builtFrom_Nil)
next
  case (Cons t ts)
  from Cons.prems(1) obtain terms1 where step: "loopBody terms t = Inr terms1"
    and rest: "tempFormat terms1 ts = Inr terms'" by (auto split: sum.splits)
  note IH = Cons.IH[OF rest agrees_Cons[OF Cons.prems(2)]]
  show ?case
  proof (cases "passes t")
    case False
    with step have "terms1 = terms" by (simp add: loopBody_skip split: if_splits)
    moreover have "forPattern p (t # ts) = forPattern p ts" using False by (simp add: forPattern_def)
    ultimately show ?thesis using IH by simp
  next
    case True
    then obtain q where q: "pattern t = Some q" using passes_pattern by blast
    note body = loopBody_passes[OF True q, of terms]
    note ag = agrees_head[OF Cons.prems(2) True q]
    show ?thesis
    proof (cases "q = p")
      case same: True
      then have fp: "forPattern p (t # ts) = t # forPattern p ts" using True q by (simp add: forPattern_def)
      show ?thesis
      proof (cases "map_of terms p")
        case None
        with body step same ag have "terms1 = AList.update p (oneTerm t) terms"
          by (auto split: if_splits)
        then have "map_of terms1 p = Some (oneTerm t)" by (simp add: AList.update_conv')
        with IH None fp show ?thesis by (simp add: builtFrom_create)
      next
        case (Some e)
        with body step same obtain e1 where e1: "mergeTerm e t = Inr e1" "terms1 = AList.update p e1 terms"
          by (auto split: if_splits sum.splits)
        then have "map_of terms1 p = Some e1" by (simp add: AList.update_conv')
        with IH Some fp e1 show ?thesis by (simp add: builtFrom_merge)
      qed
    next
      case other: False
      then have fp: "forPattern p (t # ts) = forPattern p ts" using q by (simp add: forPattern_def)
      from ag other have sk: "storeKey t q \<noteq> p" by simp
      have "map_of terms1 p = map_of terms p"
        using body step other sk
        by (auto simp: AList.update_conv' split: if_splits option.splits sum.splits)
      with IH fp show ?thesis by simp
    qed
  qed
qed

lemma created_by_first:
  assumes "tempFormat [] ts = Inr terms" "agrees p ts" "map_of terms p = Some e"
  obtains t r where "forPattern p ts = t # r" "mergeAll (oneTerm t) r = Inr e"
proof -
  from projection[OF assms(1,2)] assms(3)
  have b: "builtFrom None (forPattern p ts) (Some e)" by simp
  then obtain t r where fp: "forPattern p ts = t # r"
    by (cases "forPattern p ts") (auto simp: builtFrom_def)
  with b have "mergeAll (oneTerm t) r = Inr e" by (auto simp: builtFrom_def split: sum.splits)
  with fp show ?thesis by (rule that)
qed

lemma stored_when_present:
  assumes "tempFormat [] ts = Inr terms" "agrees p ts" "forPattern p ts \<noteq> []"
  shows "\<exists>e. map_of terms p = Some e"
proof -
  from projection[OF assms(1,2)] have b: "builtFrom None (forPattern p ts) (map_of terms p)" by simp
  with assms(3) show ?thesis
    by (cases "forPattern p ts") (auto simp: builtFrom_def split: sum.splits)
qed

lemma keys_loopBody:
  assumes "loopBody terms t = Inr terms1"
  shows "map fst terms1 = foldl ins (map fst terms)
     (case pattern t of None \<Rightarrow> []
      | Some p \<Rightarrow> if passes t \<and> map_of terms p = None then [storeKey t p] else [])"
proof (cases "passes t")
  case False
  with assms show ?thesis by (auto simp: loopBody_skip split: if_splits option.splits)
next
  case True
  then obtain q where q: "pattern t = Some q" using passes_pattern by blast
  note body = loopBody_passes[OF True q, of terms]
  show ?thesis
  proof (cases "map_of terms q")
    case None
    with body assms have "terms1 = AList.update (storeKey t q) (oneTerm t) terms" by (auto split: if_splits)
    with None q True show ?thesis by (simp add: AList.update_keys ins_def)
  next
    case (Some e)
    with body assms obtain e1 where "terms1 = AList.update q e1 terms" by (auto split: if_splits sum.splits)
    moreover from Some have "q \<in> fst ` set terms" by (metis map_of_eq_None_iff option.distinct(1))
    ultimately show ?thesis using Some q by (simp add: AList.update_keys)
  qed
qed


lemma numeric_or_short_not_passes:
  assumes "pattern t = Some p" "purelyNumeric p \<or> length p \<le> 1"
  shows "\<not> passes t"
  using assms purelyNumeric_not_NaN[of p] by (auto simp: passes_iff)

lemma tempFormat_drop:
  assumes "\<And>terms. loopBody terms t = Inr terms"
  shows "tempFormat terms0 (xs @ t # ys) = tempFormat terms0 (xs @ ys)"
  by (simp add: tempFormat_append assms split: sum.splits)

lemma snd_set_update: "snd ` set (AList.update k v al) \<subseteq> insert v (snd ` set al)"
  by (induction al) auto

lemma loopBody_objects:
  assumes "loopBody terms t = Inr terms1" "e1 \<in> snd ` set terms1"
  shows "e1 \<in> snd ` set terms \<or> e1 = oneTerm t \<or> (\<exists>e \<in> snd ` set terms. mergeTerm e t = Inr e1)"
proof (cases "passes t")
  case False
  with assms(1) have "terms1 = terms" by (simp add: loopBody_skip split: if_splits)
  with assms(2) show ?thesis by simp
next
  case True
  then obtain q where q: "pattern t = Some q" using passes_pattern by blast
  note body = loopBody_passes[OF True q, of terms]
  show ?thesis
  proof (cases "map_of terms q")
    case None
    with body assms(1) have "terms1 = AList.update (storeKey t q) (oneTerm t) terms"
      by (simp split: if_splits)
    with assms(2) have "e1 \<in> insert (oneTerm t) (snd ` set terms)"
      using snd_set_update[of "storeKey t q" "oneTerm t" terms] by blast
    then show ?thesis by blast
  next
    case (Some e)
    with body assms(1) obtain e' where e': "mergeTerm e t = Inr e'" "terms1 = AList.update q e' terms"
      by (simp split: if_splits sum.splits)
    from Some have "(q, e) \<in> set terms" by (rule map_of_SomeD)
    then have mem: "e \<in> snd ` set terms" by force
    from e'(2) assms(2) have "e1 \<in> insert e' (snd ` set terms)"
      using snd_set_update[of q e' terms] by blast
    with e'(1) mem show ?thesis by blast
  qed
qed

lemma tempFormat_objects:
  assumes "tempFormat terms ts = Inr terms'"
    and "\<And>e. e \<in> snd ` set terms \<Longrightarrow> I e"
    and "\<And>t. t \<in> set ts \<Longrightarrow> I (oneTerm t)"
    and "\<And>t e e'. t \<in> set ts \<Longrightarrow> I e \<Longrightarrow> mergeTerm e t = Inr e' \<Longrightarrow> I e'"
  shows "\<forall>e \<in> snd ` set terms'. I e"
  using assms
proof (induction ts arbitrary: terms)
  case Nil
  then show ?case by simp
next
  case (Cons t ts)
  from Cons.prems(1) obtain terms1 where step: "loopBody terms t = Inr terms1"
    and rest: "tempFormat terms1 ts = Inr terms'" by (auto split: sum.splits)
  have inv1: "I e1" if "e1 \<in> snd ` set terms1" for e1
  proof -
    from loopBody_objects[OF step that]
    consider "e1 \<in> snd ` set terms" | "e1 = oneTerm t" | e where "e \<in> snd ` set terms" "mergeTerm e t = Inr e1"
      by blast
    then show ?thesis
    proof cases
      case 1
      then show ?thesis by (rule Cons.prems(2))
    next
      case 2
      have "I (oneTerm t)" by (rule Cons.prems(3)) simp
      with 2 show ?thesis by simp
    next
      case 3
      have "t \<in> set (t # ts)" by simp
      from this Cons.prems(2)[OF 3(1)] 3(2) show ?thesis by (rule Cons.prems(4))
    qed
  qed
  show ?case
  proof (rule Cons.IH[OF rest])
    show "I e" if "e \<in> snd ` set terms1" for e using that by (rule inv1)
    show "I (oneTerm u)" if "u \<in> set ts" for u by (rule Cons.prems(3)) (simp add: that)
    show "I e'" if "u \<in> set ts" "I e" "mergeTerm e u = Inr e'" for u e e'
    proof -
      have "u \<in> set (t # ts)" using that(1) by simp
      from this that(2,3) show ?thesis by (rule Cons.prems(4))
    qed
  qed
qed

lemma mergeTerm_no_pattern_field:
  assumes "mergeTerm e t = Inr e'" "languageKey t \<noteq> ''pattern''" "map_of e ''pattern'' = None"
  shows "map_of e' ''pattern'' = None"
proof -
  from assms(1) obtain e1 where e1: "trackSourceLanguage e (field (sourceLanguage t)) = Inr e1"
    and e': "e' = set_prop e1 (languageKey t) (field (text' t))"
    by (auto simp: mergeTerm_def languageKey_def split: sum.splits)
  from trackSourceLanguage_other[OF e1, of "''pattern''"] assms(3) have "map_of e1 ''pattern'' = None" by simp
  with e' assms(2) show ?thesis by (simp add: map_of_set_prop)
qed

lemma oneTerm_no_pattern_field:
  "languageKey t \<noteq> ''pattern'' \<Longrightarrow> map_of (oneTerm t) ''pattern'' = None"
  by (simp add: oneTerm_def Let_def map_of_set_prop languageKey_def)

lemma pattern_of_outputTerm:
  assumes "distinct (map fst e)" "map_of e ''pattern'' = None"
  shows "get_prop (outputTerm (k, e)) ''pattern'' = JsStr k"
  using assms by (simp add: get_prop_def map_of_outputTerm)

lemma track_total:
  assumes "wellTracked e"
  shows "\<exists>e'. trackSourceLanguage e sl = Inr e' \<and> wellTracked e'"
proof (cases "strict_equals (get_prop e ''sourceLanguage'') sl")
  case True
  with assms show ?thesis by (simp add: trackSourceLanguage_def)
next
  case ne: False
  show ?thesis
  proof (cases "truthy (get_prop e ''multipleSourceLanguages'')")
    case True
    with assms obtain xs where xs: "get_prop e ''sourceLanguages'' = JsArr xs"
      by (auto simp: wellTracked_def)
    show ?thesis
    proof (cases "sl \<in> set xs")
      case True
      with ne \<open>truthy _\<close> xs assms show ?thesis
        by (simp add: trackSourceLanguage_def includes'_def)
    next
      case False
      with ne True xs have "trackSourceLanguage e sl = Inr (AList.update ''sourceLanguages'' (JsArr (xs @ [sl])) e)"
        by (simp add: trackSourceLanguage_def includes'_def push_def)
      moreover have "wellTracked (AList.update ''sourceLanguages'' (JsArr (xs @ [sl])) e)"
        by (simp add: wellTracked_def get_prop_def AList.update_conv')
      ultimately show ?thesis by blast
    qed
  next
    case False
    with ne show ?thesis
      by (simp add: trackSourceLanguage_def Let_def wellTracked_def get_prop_def map_of_set_prop
          map_of_delete_prop)
  qed
qed

lemma get_prop_set_prop_other: "k' \<noteq> k \<Longrightarrow> get_prop (set_prop e k v) k' = get_prop e k'"
  by (simp add: get_prop_def map_of_set_prop)

lemma set_language_wellTracked:
  assumes "wellTracked e" "k \<noteq> ''sourceLanguages''" "k \<noteq> ''multipleSourceLanguages''"
  shows "wellTracked (set_prop e k v)"
  using assms by (simp add: wellTracked_def get_prop_set_prop_other)

lemma mergeTerm_total:
  assumes "wellTracked e" "languageKey t \<noteq> ''sourceLanguages''" "languageKey t \<noteq> ''multipleSourceLanguages''"
  shows "\<exists>e'. mergeTerm e t = Inr e' \<and> wellTracked e'"
proof -
  from track_total[OF assms(1), of "field (sourceLanguage t)"] obtain e1
    where e1: "trackSourceLanguage e (field (sourceLanguage t)) = Inr e1" "wellTracked e1" by blast
  from e1(1) have "mergeTerm e t = Inr (set_prop e1 (languageKey t) (field (text' t)))"
    by (simp add: mergeTerm_def languageKey_def)
  with set_language_wellTracked[OF e1(2) assms(2,3)] show ?thesis by blast
qed

lemma oneTerm_wellTracked:
  assumes "languageKey t \<noteq> ''sourceLanguages''" "languageKey t \<noteq> ''multipleSourceLanguages''"
  shows "wellTracked (oneTerm t)"
  using assms
  by (simp add: wellTracked_def oneTerm_def Let_def get_prop_def map_of_set_prop languageKey_def truthy_def)

lemma loopBody_total:
  assumes inv: "\<And>e. e \<in> snd ` set terms \<Longrightarrow> wellTracked e"
    and d: "dollar t \<noteq> None"
    and l: "languageKey t \<noteq> ''sourceLanguages''" "languageKey t \<noteq> ''multipleSourceLanguages''"
    and p: "\<And>q. pattern t = Some q \<Longrightarrow> q \<notin> set inherited"
  shows "\<exists>terms1. loopBody terms t = Inr terms1 \<and> (\<forall>e \<in> snd ` set terms1. wellTracked e)"
proof (cases "passes t")
  case False
  with d inv show ?thesis by (simp add: loopBody_skip)
next
  case True
  then obtain q where q: "pattern t = Some q" using passes_pattern by blast
  note body = loopBody_passes[OF True q, of terms]
  from p[OF q] have ni: "q \<notin> set inherited" .
  show ?thesis
  proof (cases "map_of terms q")
    case None
    with body ni have b: "loopBody terms t = Inr (AList.update (storeKey t q) (oneTerm t) terms)" by simp
    have "wellTracked e" if "e \<in> snd ` set (AList.update (storeKey t q) (oneTerm t) terms)" for e
    proof -
      from that snd_set_update[of "storeKey t q" "oneTerm t" terms]
      have "e = oneTerm t \<or> e \<in> snd ` set terms" by blast
      with inv oneTerm_wellTracked[OF l] show ?thesis by blast
    qed
    with b show ?thesis by blast
  next
    case (Some e0)
    then have "(q, e0) \<in> set terms" by (rule map_of_SomeD)
    then have "e0 \<in> snd ` set terms" by force
    from mergeTerm_total[OF inv[OF this] l] obtain e1 where e1: "mergeTerm e0 t = Inr e1" "wellTracked e1"
      by blast
    with body ni Some have b: "loopBody terms t = Inr (AList.update q e1 terms)" by simp
    have "wellTracked e" if "e \<in> snd ` set (AList.update q e1 terms)" for e
    proof -
      from that snd_set_update[of q e1 terms] have "e = e1 \<or> e \<in> snd ` set terms" by blast
      with inv e1(2) show ?thesis by blast
    qed
    with b show ?thesis by blast
  qed
qed

lemma tempFormat_total:
  assumes "\<And>e. e \<in> snd ` set terms \<Longrightarrow> wellTracked e"
    and "\<And>t. t \<in> set ts \<Longrightarrow> dollar t \<noteq> None"
    and "\<And>t. t \<in> set ts \<Longrightarrow> languageKey t \<noteq> ''sourceLanguages'' \<and> languageKey t \<noteq> ''multipleSourceLanguages''"
    and "\<And>t q. t \<in> set ts \<Longrightarrow> pattern t = Some q \<Longrightarrow> q \<notin> set inherited"
  shows "\<exists>terms'. tempFormat terms ts = Inr terms'"
  using assms
proof (induction ts arbitrary: terms)
  case Nil
  then show ?case by simp
next
  case (Cons t ts)
  have "\<exists>terms1. loopBody terms t = Inr terms1 \<and> (\<forall>e \<in> snd ` set terms1. wellTracked e)"
  proof (rule loopBody_total)
    show "wellTracked e" if "e \<in> snd ` set terms" for e using that by (rule Cons.prems(1))
    show "dollar t \<noteq> None" by (rule Cons.prems(2)) simp
    show "languageKey t \<noteq> ''sourceLanguages''" using Cons.prems(3)[of t] by simp
    show "languageKey t \<noteq> ''multipleSourceLanguages''" using Cons.prems(3)[of t] by simp
    show "q \<notin> set inherited" if "pattern t = Some q" for q using Cons.prems(4)[of t q] that by simp
  qed
  then obtain terms1 where step: "loopBody terms t = Inr terms1"
    and inv1: "\<forall>e \<in> snd ` set terms1. wellTracked e" by blast
  have "\<exists>terms'. tempFormat terms1 ts = Inr terms'"
  proof (rule Cons.IH)
    show "wellTracked e" if "e \<in> snd ` set terms1" for e using inv1 that by blast
    show "dollar u \<noteq> None" if "u \<in> set ts" for u by (rule Cons.prems(2)) (simp add: that)
    show "languageKey u \<noteq> ''sourceLanguages'' \<and> languageKey u \<noteq> ''multipleSourceLanguages''"
      if "u \<in> set ts" for u by (rule Cons.prems(3)) (simp add: that)
    show "q \<notin> set inherited" if "u \<in> set ts" "pattern u = Some q" for u q
      using Cons.prems(4)[of u q] that by simp
  qed
  with step show ?case by simp
qed

lemma tempFormat_filter:
  assumes "\<And>t. t \<in> set ts \<Longrightarrow> \<not> P t \<Longrightarrow> dollar t \<noteq> None \<and> \<not> passes t"
  shows "tempFormat terms (filter P ts) = tempFormat terms ts"
  using assms
proof (induction ts arbitrary: terms)
  case Nil
  then show ?case by simp
next
  case (Cons t ts)
  have IH: "tempFormat terms' (filter P ts) = tempFormat terms' ts" for terms'
    by (rule Cons.IH) (simp add: Cons.prems)
  show ?case
  proof (cases "P t")
    case True
    then show ?thesis by (simp add: IH cong: sum.case_cong)
  next
    case False
    with Cons.prems[of t] have "loopBody terms t = Inr terms" by (simp add: loopBody_skip)
    with False show ?thesis by (simp add: IH)
  qed
qed

lemma mergedTerm_run:
  assumes "mergedTerm p ts = Some e"
  obtains terms where "tempFormat [] ts = Inr terms" "map_of terms p = Some e"
  using assms by (auto simp: mergedTerm_def split: sum.splits)

lemma emittedTerm_in_output:
  assumes "VnrToYagtFormat ts = Inr out" "emittedTerm p ts = Some ob"
  shows "ob \<in> set out"
proof -
  from assms(2) obtain e where e: "mergedTerm p ts = Some e" "ob = outputTerm (p, e)"
    by (auto simp: emittedTerm_def)
  from e(1) obtain terms where t: "tempFormat [] ts = Inr terms" "map_of terms p = Some e"
    by (rule mergedTerm_run)
  from t(2) have "(p, e) \<in> set terms" by (rule map_of_SomeD)
  with assms(1) t(1) e(2) show ?thesis by (auto simp: VnrToYagtFormat_def)
qed

lemma merged_built:
  assumes "mergedTerm p ts = Some e" "agrees p ts"
  obtains t r where "forPattern p ts = t # r" "mergeAll (oneTerm t) r = Inr e"
proof -
  from assms(1) obtain terms where t: "tempFormat [] ts = Inr terms" "map_of terms p = Some e"
    by (rule mergedTerm_run)
  from created_by_first[OF t(1) assms(2) t(2)] that show ?thesis by blast
qed

lemma merged_exists:
  assumes "VnrToYagtFormat ts = Inr out" "agrees p ts" "forPattern p ts \<noteq> []"
  shows "\<exists>e. mergedTerm p ts = Some e"
proof -
  from assms(1) obtain terms where t: "tempFormat [] ts = Inr terms"
    by (auto simp: VnrToYagtFormat_def split: sum.splits)
  from stored_when_present[OF t assms(2,3)] t show ?thesis by (simp add: mergedTerm_def)
qed

lemma merged_distinct:
  assumes "mergedTerm p ts = Some e" "agrees p ts"
  shows "distinct (map fst e)"
proof -
  from assms obtain t r where "mergeAll (oneTerm t) r = Inr e" by (rule merged_built)
  from distinct_mergeAll[OF this distinct_oneTerm] show ?thesis .
qed

lemma forPattern_passes: "t \<in> set (forPattern p ts) \<Longrightarrow> passes t \<and> pattern t = Some p \<and> t \<in> set ts"
  by (simp add: forPattern_def)

lemma forPattern_take: "set (forPattern p (take n ts)) \<subseteq> set (forPattern p ts)"
  by (auto simp: forPattern_def dest: in_set_takeD)

lemma merged_listShape:
  assumes "mergedTerm p (take n ts) = Some e" "agrees p ts"
    and "\<forall>t \<in> set (forPattern p ts). sourceLanguage t \<noteq> None
           \<and> languageKey t \<noteq> ''sourceLanguage'' \<and> languageKey t \<noteq> ''sourceLanguages''"
  shows "listShape (sourceLanguagesSeen p (take n ts)) e"
proof -
  note ag = agrees_take[OF assms(2), of n]
  from assms(1) ag obtain t0 r where fp: "forPattern p (take n ts) = t0 # r"
    and built: "mergeAll (oneTerm t0) r = Inr e" by (rule merged_built)
  have sub: "set (t0 # r) \<subseteq> set (forPattern p ts)" using forPattern_take[of p n ts] fp by simp
  from sub assms(3) have "listShape [field (sourceLanguage t0)] (oneTerm t0)"
    by (intro oneTerm_listShape) auto
  moreover have "\<forall>t \<in> set r. sourceLanguage t \<noteq> None \<and> languageKey t \<noteq> ''sourceLanguage''
           \<and> languageKey t \<noteq> ''sourceLanguages'' \<and> truthy (field (text' t))"
    using sub assms(3) forPattern_passes[of _ p ts] by (auto intro: passes_truthy_text)
  ultimately have "listShape (foldl ins [field (sourceLanguage t0)] (map (\<lambda>t. field (sourceLanguage t)) r)) e"
    by (rule mergeAll_listShape[OF built])
  with fp show ?thesis by (simp add: sourceLanguagesSeen_def firstSeen_def ins_def)
qed

lemma merged_flagShape:
  assumes "mergedTerm p (take n ts) = Some e" "agrees p ts"
    and "\<forall>t \<in> set (forPattern p ts). languageKey t \<noteq> ''sourceLanguage''
           \<and> languageKey t \<noteq> ''multipleSourceLanguages''"
  shows "flagShape (sourceLanguagesSeen p (take n ts)) e"
proof -
  note ag = agrees_take[OF assms(2), of n]
  from assms(1) ag obtain t0 r where fp: "forPattern p (take n ts) = t0 # r"
    and built: "mergeAll (oneTerm t0) r = Inr e" by (rule merged_built)
  have sub: "set (t0 # r) \<subseteq> set (forPattern p ts)" using forPattern_take[of p n ts] fp by simp
  from sub assms(3) have "flagShape [field (sourceLanguage t0)] (oneTerm t0)"
    by (intro oneTerm_flagShape) auto
  moreover have "\<forall>t \<in> set r. languageKey t \<noteq> ''sourceLanguage'' \<and> languageKey t \<noteq> ''multipleSourceLanguages''"
    using sub assms(3) by auto
  ultimately have "flagShape (foldl ins [field (sourceLanguage t0)] (map (\<lambda>t. field (sourceLanguage t)) r)) e"
    by (rule mergeAll_flagShape[OF built])
  with fp show ?thesis by (simp add: sourceLanguagesSeen_def firstSeen_def ins_def)
qed

lemma listShape_fields:
  assumes "listShape ds e"
  shows "if length ds \<le> 1
         then map_of e ''sourceLanguage'' = Some (hd ds) \<and> map_of e ''sourceLanguages'' = None
         else map_of e ''sourceLanguage'' = None \<and> map_of e ''sourceLanguages'' = Some (JsArr ds)"
  using assms by (auto simp: listShape_def split: list.splits)

lemma flagShape_fields:
  assumes "flagShape ds e"
  shows "map_of e ''multipleSourceLanguages'' = (if 1 < length ds then Some (JsBool True) else None)
         \<and> (map_of e ''multipleSourceLanguages'' = None \<or> map_of e ''sourceLanguages'' \<noteq> None)"
  using assms by (auto simp: flagShape_def split: list.splits)

lemma outputTerm_other_field:
  "distinct (map fst e) \<Longrightarrow> k \<noteq> ''pattern'' \<Longrightarrow> map_of (outputTerm (p, e)) k = map_of e k"
  by (simp add: map_of_outputTerm split: option.splits)

lemma length_foldl_ins: "length acc \<le> length (foldl ins acc xs)"
proof (induction xs arbitrary: acc)
  case Nil
  then show ?case by simp
next
  case (Cons x xs)
  have "length acc \<le> length (ins acc x)" by (simp add: ins_def)
  also have "\<dots> \<le> length (foldl ins (ins acc x) xs)" by (rule Cons.IH)
  finally show ?case by simp
qed

lemma seen_grows:
  assumes "m \<le> n"
  shows "length (sourceLanguagesSeen p (take m ts)) \<le> length (sourceLanguagesSeen p (take n ts))"
proof -
  from assms have "take n ts = take m ts @ take (n - m) (drop m ts)"
    by (metis le_add_diff_inverse take_add)
  then show ?thesis
    by (simp add: sourceLanguagesSeen_def forPattern_def firstSeen_def length_foldl_ins)
qed

lemma wrapped_differs: "''/'' @ p @ ''/'' \<noteq> p"
proof
  assume "''/'' @ p @ ''/'' = p"
  then have "length (''/'' @ p @ ''/'') = length p" by simp
  then show False by simp
qed

lemma pattern_fields:
  assumes run: "tempFormat [] ts = Inr terms" and np: "list_all (\<lambda>t. languageKey t \<noteq> ''pattern'') ts"
  shows "map (\<lambda>ob. get_prop ob ''pattern'') (map outputTerm terms) = map JsStr (map fst terms)"
proof -
  have "\<forall>e \<in> snd ` set terms. distinct (map fst e) \<and> map_of e ''pattern'' = None"
    using run
  proof (rule tempFormat_objects)
    show "distinct (map fst e) \<and> map_of e ''pattern'' = None" if "e \<in> snd ` set []" for e :: obj
      using that by simp
    show "distinct (map fst (oneTerm t)) \<and> map_of (oneTerm t) ''pattern'' = None" if "t \<in> set ts" for t
      using np that by (simp add: list_all_iff distinct_oneTerm oneTerm_no_pattern_field)
    show "distinct (map fst e') \<and> map_of e' ''pattern'' = None"
      if "t \<in> set ts" "distinct (map fst e) \<and> map_of e ''pattern'' = None" "mergeTerm e t = Inr e'"
      for t e e'
    proof -
      from np that(1) have "languageKey t \<noteq> ''pattern''" by (simp add: list_all_iff)
      from mergeTerm_no_pattern_field[OF that(3) this] distinct_mergeTerm[OF that(3)] that(2)
      show ?thesis by simp
    qed
  qed
  then have "\<forall>kv \<in> set terms. get_prop (outputTerm kv) ''pattern'' = JsStr (fst kv)"
    by (auto simp: pattern_of_outputTerm)
  then show ?thesis by simp
qed

lemma keys_plain:
  assumes "tempFormat terms ts = Inr terms'" "\<forall>t \<in> set ts. passes t \<longrightarrow> regex t \<noteq> Some ''true''"
  shows "map fst terms' = foldl ins (map fst terms)
           (List.map_filter (\<lambda>t. if passes t then pattern t else None) ts)"
  using assms
proof (induction ts arbitrary: terms)
  case Nil
  then show ?case by (simp add: List.map_filter_simps)
next
  case (Cons t ts)
  from Cons.prems(1) obtain terms1 where step: "loopBody terms t = Inr terms1"
    and rest: "tempFormat terms1 ts = Inr terms'" by (auto split: sum.splits)
  from Cons.prems(2) have nr: "\<forall>t \<in> set ts. passes t \<longrightarrow> regex t \<noteq> Some ''true''" by simp
  note IH = Cons.IH[OF rest nr]
  show ?case
  proof (cases "passes t")
    case False
    with keys_loopBody[OF step] have "map fst terms1 = map fst terms" by (simp split: option.splits)
    with IH False show ?thesis by (simp add: List.map_filter_simps)
  next
    case True
    then obtain q where q: "pattern t = Some q" using passes_pattern by blast
    from True Cons.prems(2) have sk: "storeKey t q = q" by (simp add: storeKey_def)
    have "map fst terms1 = ins (map fst terms) q"
    proof (cases "map_of terms q")
      case None
      with keys_loopBody[OF step] q True sk show ?thesis by simp
    next
      case (Some e)
      then have "q \<in> set (map fst terms)" by (metis map_of_eq_None_iff option.distinct(1) set_map)
      with keys_loopBody[OF step] q True Some show ?thesis by (simp add: ins_def)
    qed
    with IH True q show ?thesis by (simp add: List.map_filter_simps)
  qed
qed

text \<open>
  \<^verbatim>\<open>for (key in object)\<close> lists integer-like property names first and the others in
  creation order. No key of the dictionary is integer-like: a plain pattern made of
  digits does not get past line 155, and a wrapped key starts with a slash. So the order
  of the list is the order of the loop of lines 198 to 201.
\<close>

lemma stored_key_not_index:
  assumes "passes t" "pattern t = Some q"
  shows "\<not> DecimalDigits (storeKey t q)"
proof (cases "regex t = Some ''true''")
  case True
  then show ?thesis by (simp add: storeKey_def DecimalDigits_def DecimalDigit_def)
next
  case False
  from assms have "isNaN q" by (auto simp: passes_iff)
  with digits_numeric[of q] have "\<not> DecimalDigits q" by (auto simp: isNaN_def)
  with False show ?thesis by (simp add: storeKey_def)
qed

lemma storedKeys_not_index: "k \<in> set (storedKeys terms ts) \<Longrightarrow> \<not> DecimalDigits k"
proof (induction ts arbitrary: terms)
  case Nil
  then show ?case by simp
next
  case (Cons t ts)
  show ?case
  proof (cases "loopBody terms t")
    case (Inl e)
    with Cons.prems show ?thesis by simp
  next
    case (Inr terms1)
    show ?thesis
    proof (cases "k \<in> set (storedKeys terms1 ts)")
      case True
      then show ?thesis by (rule Cons.IH)
    next
      case False
      with Cons.prems Inr obtain q where "pattern t = Some q" "passes t" "k = storeKey t q"
        by (cases "pattern t") (auto split: if_splits)
      with stored_key_not_index[of t q] show ?thesis by simp
    qed
  qed
qed

section \<open>The claims\<close>

text \<open>
  A record is \<^emph>\<open>converted\<close> when it gets past the filter (\<^const>\<open>passes\<close>). Several claims
  speak about all the terms of one key. The code decides with the pattern text whether a
  record is merged and stores under the wrapped key, so the two agree only on some keys
  (\<^const>\<open>agrees\<close>): the pattern texts used by no converted regex term and equal to no
  wrapped key. The properties of Merged Terms below are stated for such keys; what
  happens on the others is the subject of C2 and C3.

  A hypothesis \<open>VnrToYagtFormat ts = Inr out\<close> says that the conversion returns \<open>out\<close>: no
  record raised a TypeError, and no converted record had a pattern among the names
  \<^const>\<open>inherited\<close>, where this development stops following the converter.
\<close>

text \<open>
  C1. The claim: a term whose \<^verbatim>\<open>sourceLanguage\<close> is not \<^verbatim>\<open>"ja"\<close>, or whose \<^verbatim>\<open>type\<close> is not
  \<^verbatim>\<open>"trans"\<close>, is dropped. The code does not drop it: in lines 151 and 152 the operator
  \<^verbatim>\<open>!\<close> turns the field into a boolean before \<^verbatim>\<open>===\<close> compares it with a string, so
  both tests are false for every record (lemma \<open>js_not_never_a_string\<close>). The record below
  has the source language \<^verbatim>\<open>"en"\<close> and the type \<^verbatim>\<open>"name"\<close>, and it is converted.
\<close>

theorem C1_other_source_language_and_type_converted:
  "VnrToYagtFormat
     [\<lparr>sourceLanguage = Some ''en'', language = Some ''fr'', text' = Some ''salut'',
       pattern = Some ''hello'', regex = None, comment = None,
       dollar = Some [(''type'', ''name'')]\<rparr>]
   = Inr [[(''pattern'', JsStr ''hello''), (''sourceLanguage'', JsStr ''en''), (''fr'', JsStr ''salut'')]]"
  by code_simp

text \<open>
  C2. The claim: the decision to merge looks up the effective key, so that the second of
  two terms with \<^verbatim>\<open>regex\<close> \<^verbatim>\<open>"true"\<close> and the same pattern text is merged into the first.
  The code looks up the pattern text itself (line 159) and stores under the wrapped
  key (line 191): the second term finds nothing under \<^verbatim>\<open>foo\<close>, and its new object
  replaces the one stored under \<^verbatim>\<open>/foo/\<close>. The translation \<^verbatim>\<open>en\<close> of the first term is
  lost.
\<close>

theorem C2_second_regex_term_replaces_first:
  "VnrToYagtFormat
     [\<lparr>sourceLanguage = Some ''ja'', language = Some ''en'', text' = Some ''a'',
       pattern = Some ''foo'', regex = Some ''true'', comment = None,
       dollar = Some [(''type'', ''trans'')]\<rparr>,
      \<lparr>sourceLanguage = Some ''ja'', language = Some ''fr'', text' = Some ''b'',
       pattern = Some ''foo'', regex = Some ''true'', comment = None,
       dollar = Some [(''type'', ''trans'')]\<rparr>]
   = Inr [[(''pattern'', JsStr ''/foo/''), (''sourceLanguage'', JsStr ''ja''), (''fr'', JsStr ''b'')]]"
  by code_simp

text \<open>
  C3. The claim: a plain term and a regex term with the same pattern text give two Output
  Terms, \<^verbatim>\<open>foo\<close> and \<^verbatim>\<open>/foo/\<close>, in either input order. With the plain term first, the
  lookup of line 159 finds the plain term's object under \<^verbatim>\<open>foo\<close> when the regex term
  arrives, and the regex term is merged into it: the output has the single term \<^verbatim>\<open>foo\<close>.
\<close>

theorem C3_plain_then_regex_collide:
  "VnrToYagtFormat
     [\<lparr>sourceLanguage = Some ''ja'', language = Some ''en'', text' = Some ''a'',
       pattern = Some ''foo'', regex = None, comment = None,
       dollar = Some [(''type'', ''trans'')]\<rparr>,
      \<lparr>sourceLanguage = Some ''ja'', language = Some ''fr'', text' = Some ''b'',
       pattern = Some ''foo'', regex = Some ''true'', comment = None,
       dollar = Some [(''type'', ''trans'')]\<rparr>]
   = Inr [[(''pattern'', JsStr ''foo''), (''sourceLanguage'', JsStr ''ja''), (''en'', JsStr ''a''),
           (''fr'', JsStr ''b'')]]"
  by code_simp

text \<open>
  C4 (as amended). Let \<open>p\<close> be a pattern text on which lookup and store agree, and \<open>l\<close> a
  language name other than \<^verbatim>\<open>sourceLanguage\<close>, \<^verbatim>\<open>sourceLanguages\<close>, \<^verbatim>\<open>comment\<close> and
  \<^verbatim>\<open>__proto__\<close>. If the conversion returns and some converted term with pattern \<open>p\<close> has the
  language \<open>l\<close>, then the Output Term of \<open>p\<close> has exactly one field named \<open>l\<close>, and it holds
  the text of the last such term in input order.
\<close>

theorem C4_last_text_per_language:
  assumes "VnrToYagtFormat ts = Inr out" "agrees p ts"
    and "t \<in> set (forPattern p ts)" "languageKey t = l"
    and "l \<notin> set [''sourceLanguage'', ''sourceLanguages'', ''comment'', ''__proto__'']"
  shows "\<exists>ob. emittedTerm p ts = Some ob \<and> ob \<in> set out \<and>
           map_of ob l = Some (field (text' (last (filter (\<lambda>u. languageKey u = l) (forPattern p ts))))) \<and>
           length (filter (\<lambda>kv. fst kv = l) ob) = 1"
proof -
  from assms(3) have ne: "forPattern p ts \<noteq> []" by auto
  from merged_exists[OF assms(1,2) ne] obtain e where e: "mergedTerm p ts = Some e" by blast
  from e assms(2) obtain t0 r where fp: "forPattern p ts = t0 # r" and built: "mergeAll (oneTerm t0) r = Inr e"
    by (rule merged_built)
  have tt: "\<forall>u \<in> set (t0 # r). truthy (field (text' u))"
    using forPattern_passes[of _ p ts] fp by (auto intro: passes_truthy_text)
  have "filter (\<lambda>u. languageKey u = l) (t0 # r) \<noteq> []"
    using assms(3,4) fp by (auto simp: filter_empty_conv)
  from created_language[OF built assms(5) tt this] fp
  have fld: "map_of e l = Some (field (text' (last (filter (\<lambda>u. languageKey u = l) (forPattern p ts)))))"
    by simp
  let ?ob = "outputTerm (p, e)"
  have em: "emittedTerm p ts = Some ?ob" using e by (simp add: emittedTerm_def)
  have "map_of ?ob l = map_of e l"
    using fld by (simp add: map_of_outputTerm[OF merged_distinct[OF e assms(2)]])
  with fld have out_fld:
    "map_of ?ob l = Some (field (text' (last (filter (\<lambda>u. languageKey u = l) (forPattern p ts)))))" by simp
  from one_field[OF distinct_outputTerm out_fld] have "length (filter (\<lambda>kv. fst kv = l) ?ob) = 1" .
  with em emittedTerm_in_output[OF assms(1) em] out_fld show ?thesis by blast
qed

text \<open>
  In \<^const>\<open>sample_merge\<close> two terms for \<^verbatim>\<open>foo\<close> have the language \<^verbatim>\<open>en\<close>, with the texts
  \<^verbatim>\<open>a\<close> and then \<^verbatim>\<open>c\<close>.
\<close>

theorem C4_witness:
  "\<exists>ob. emittedTerm ''foo'' sample_merge = Some ob \<and> map_of ob ''en'' = Some (JsStr ''c'') \<and>
         length (filter (\<lambda>kv. fst kv = ''en'') ob) = 1"
proof -
  have run: "VnrToYagtFormat sample_merge = Inr
     [[(''pattern'', JsStr ''foo''), (''en'', JsStr ''c''), (''comment'', JsStr ''first''),
       (''multipleSourceLanguages'', JsBool True),
       (''sourceLanguages'', JsArr [JsStr ''ja'', JsStr ''en'', JsStr ''zh'']),
       (''fr'', JsStr ''b''), (''de'', JsStr ''d'')],
      [(''pattern'', JsStr ''/bar/''), (''sourceLanguage'', JsStr ''ja''), (''en'', JsStr ''x'')]]"
    by code_simp
  have ag: "agrees ''foo'' sample_merge" by code_simp
  have mem: "(translation ''foo'' ''ja'' ''en'' ''a'')\<lparr>comment := Some ''first''\<rparr>
               \<in> set (forPattern ''foo'' sample_merge)" by code_simp
  have lang: "languageKey ((translation ''foo'' ''ja'' ''en'' ''a'')\<lparr>comment := Some ''first''\<rparr>) = ''en''"
    by code_simp
  have ok: "''en'' \<notin> set [''sourceLanguage'', ''sourceLanguages'', ''comment'', ''__proto__'']" by simp
  have last: "field (text' (last (filter (\<lambda>u. languageKey u = ''en'') (forPattern ''foo'' sample_merge))))
                = JsStr ''c''" by code_simp
  from C4_last_text_per_language[OF run ag mem lang ok] show ?thesis unfolding last by blast
qed

text \<open>
  The claim as stated fails for a language named like a field the converter writes
  itself. With the language \<^verbatim>\<open>comment\<close>, line 185 stores the text \<^verbatim>\<open>hi\<close> under that name and
  line 187 overwrites it with the term's comment. The assignment to \<^verbatim>\<open>__proto__\<close> creates
  no field. A field \<^verbatim>\<open>sourceLanguage\<close> holding a text is deleted by line 177 when the next
  term has another source language than that text, and a field \<^verbatim>\<open>sourceLanguages\<close>
  holding a text is replaced by the array of line 174.
\<close>

theorem C4_counterexample:
  "VnrToYagtFormat
     [\<lparr>sourceLanguage = Some ''ja'', language = Some ''comment'', text' = Some ''hi'',
       pattern = Some ''foo'', regex = None, comment = Some ''note'',
       dollar = Some [(''type'', ''trans'')]\<rparr>]
   = Inr [[(''pattern'', JsStr ''foo''), (''sourceLanguage'', JsStr ''ja''), (''comment'', JsStr ''note'')]]
   \<and> map_of [(''pattern'', JsStr ''foo''), (''sourceLanguage'', JsStr ''ja''), (''comment'', JsStr ''note'')]
        ''comment'' \<noteq> Some (JsStr ''hi'')
   \<and> VnrToYagtFormat [translation ''foo'' ''ja'' ''__proto__'' ''hi'']
     = Inr [[(''pattern'', JsStr ''foo''), (''sourceLanguage'', JsStr ''ja'')]]
   \<and> VnrToYagtFormat [translation ''foo'' ''ja'' ''sourceLanguage'' ''x'', translation ''foo'' ''ja'' ''en'' ''a'']
     = Inr [[(''pattern'', JsStr ''foo''), (''multipleSourceLanguages'', JsBool True),
             (''sourceLanguages'', JsArr [JsStr ''x'', JsStr ''ja'']), (''en'', JsStr ''a'')]]
   \<and> VnrToYagtFormat [translation ''foo'' ''ja'' ''sourceLanguages'' ''x'', translation ''foo'' ''en'' ''en'' ''a'']
     = Inr [[(''pattern'', JsStr ''foo''), (''sourceLanguages'', JsArr [JsStr ''ja'', JsStr ''en'']),
             (''multipleSourceLanguages'', JsBool True), (''en'', JsStr ''a'')]]"
  by code_simp



text \<open>
  C6 (as amended). A record that has the attribute object \<^verbatim>\<open>$\<close> never makes the filter
  raise, whether or not \<^verbatim>\<open>$\<close> holds \<^verbatim>\<open>type\<close> and whatever child elements are missing, and a
  record without text or without pattern is skipped: if every record has \<^verbatim>\<open>$\<close>, no
  language is named \<^verbatim>\<open>sourceLanguages\<close> or \<^verbatim>\<open>multipleSourceLanguages\<close>, and no pattern is a
  name inherited from \<^verbatim>\<open>Object.prototype\<close>, then the conversion returns, and it returns
  the same output as for the input without the records that lack text or pattern.
\<close>

theorem C6_no_exception_with_attribute_set:
  assumes "\<forall>t \<in> set ts. dollar t \<noteq> None"
    and "\<forall>t \<in> set ts. languageKey t \<noteq> ''sourceLanguages'' \<and> languageKey t \<noteq> ''multipleSourceLanguages''"
    and "\<forall>t \<in> set ts. \<forall>q. pattern t = Some q \<longrightarrow> q \<notin> set inherited"
  shows "\<exists>out. VnrToYagtFormat ts = Inr out \<and>
           VnrToYagtFormat (filter (\<lambda>t. text' t \<noteq> None \<and> pattern t \<noteq> None) ts) = Inr out"
proof -
  have "\<exists>terms'. tempFormat [] ts = Inr terms'"
  proof (rule tempFormat_total)
    show "wellTracked e" if "e \<in> snd ` set []" for e :: obj using that by simp
    show "dollar t \<noteq> None" if "t \<in> set ts" for t using assms(1) that by blast
    show "languageKey t \<noteq> ''sourceLanguages'' \<and> languageKey t \<noteq> ''multipleSourceLanguages''"
      if "t \<in> set ts" for t using assms(2) that by blast
    show "q \<notin> set inherited" if "t \<in> set ts" "pattern t = Some q" for t q using assms(3) that by blast
  qed
  then obtain terms' where run: "tempFormat [] ts = Inr terms'" by blast
  have "tempFormat [] (filter (\<lambda>t. text' t \<noteq> None \<and> pattern t \<noteq> None) ts) = tempFormat [] ts"
  proof (rule tempFormat_filter)
    fix t assume "t \<in> set ts" "\<not> (text' t \<noteq> None \<and> pattern t \<noteq> None)"
    with assms(1) show "dollar t \<noteq> None \<and> \<not> passes t" by (auto simp: passes_iff)
  qed
  with run show ?thesis by (simp add: VnrToYagtFormat_def)
qed

text \<open>
  \<^const>\<open>sample_malformed\<close>: a record with an empty attribute object and no text, a record
  without \<^verbatim>\<open>type\<close> and without \<^verbatim>\<open>sourceLanguage\<close>, and a record without pattern.
\<close>

theorem C6_witness:
  "VnrToYagtFormat sample_malformed
     = Inr [[(''pattern'', JsStr ''hello''), (''sourceLanguage'', JsUndefined), (''en'', JsStr ''hi'')]]
   \<and> VnrToYagtFormat (filter (\<lambda>t. text' t \<noteq> None \<and> pattern t \<noteq> None) sample_malformed)
     = VnrToYagtFormat sample_malformed"
proof -
  have 1: "\<forall>t \<in> set sample_malformed. dollar t \<noteq> None" by code_simp
  have 2: "\<forall>t \<in> set sample_malformed.
     languageKey t \<noteq> ''sourceLanguages'' \<and> languageKey t \<noteq> ''multipleSourceLanguages''" by code_simp
  have 3: "\<forall>t \<in> set sample_malformed. \<forall>q. pattern t = Some q \<longrightarrow> q \<notin> set inherited"
    by (simp add: sample_malformed_def inherited_def)
  have run: "VnrToYagtFormat sample_malformed
     = Inr [[(''pattern'', JsStr ''hello''), (''sourceLanguage'', JsUndefined), (''en'', JsStr ''hi'')]]"
    by code_simp
  from C6_no_exception_with_attribute_set[OF 1 2 3] run show ?thesis by auto
qed

text \<open>
  The claim as stated fails for a record without any attribute: line 152 reads
  \<^verbatim>\<open>$.type\<close> of \<^verbatim>\<open>undefined\<close>, and the TypeError ends the conversion. Records with all their
  fields can raise as well, in the merge: when a language named \<^verbatim>\<open>multipleSourceLanguages\<close>
  has set the flag without the array, line 167 calls \<^verbatim>\<open>includes\<close> on \<^verbatim>\<open>undefined\<close>; when a
  language named \<^verbatim>\<open>sourceLanguages\<close> has put a text in the place of the array, line 169
  calls \<^verbatim>\<open>push\<close> on a string.
\<close>

theorem C6_counterexample:
  "VnrToYagtFormat
     [\<lparr>sourceLanguage = Some ''ja'', language = Some ''en'', text' = Some ''hi'',
       pattern = Some ''hello'', regex = None, comment = None, dollar = None\<rparr>]
   = Inl TypeError
   \<and> VnrToYagtFormat
       [translation ''foo'' ''ja'' ''multipleSourceLanguages'' ''x'', translation ''foo'' ''en'' ''en'' ''a'']
     = Inl TypeError
   \<and> VnrToYagtFormat
       [translation ''foo'' ''ja'' ''en'' ''a'', translation ''foo'' ''en'' ''sourceLanguages'' ''x'',
        translation ''foo'' ''zh'' ''en'' ''c'']
     = Inl TypeError"
  by code_simp

text \<open>
  C7 (as amended). Let \<open>p\<close> be a pattern text on which lookup and store agree, and let
  every converted term with pattern \<open>p\<close> have a \<^verbatim>\<open>sourceLanguage\<close> and a language other than
  \<^verbatim>\<open>sourceLanguage\<close> and \<^verbatim>\<open>sourceLanguages\<close>. Then after every input record (after the
  first \<open>n\<close> records, for every \<open>n\<close>), the Merged Term of \<open>p\<close> and the Output Term made from
  it have either the field \<^verbatim>\<open>sourceLanguage\<close> and no \<^verbatim>\<open>sourceLanguages\<close>, while the terms
  converted so far for \<open>p\<close> share one source language, or no \<^verbatim>\<open>sourceLanguage\<close> and the
  array \<^verbatim>\<open>sourceLanguages\<close>, which lists the distinct source languages seen so far, in
  first-seen order and without duplicates (lemmas \<open>distinct_firstSeen\<close>, \<open>set_firstSeen\<close>,
  \<open>firstSeen_Cons\<close>).
\<close>

theorem C7_one_shape_of_source_languages:
  assumes "mergedTerm p (take n ts) = Some e" "agrees p ts"
    and "\<forall>t \<in> set (forPattern p ts). sourceLanguage t \<noteq> None
           \<and> languageKey t \<noteq> ''sourceLanguage'' \<and> languageKey t \<noteq> ''sourceLanguages''"
  shows "\<forall>ob \<in> {e, outputTerm (p, e)}.
           if length (sourceLanguagesSeen p (take n ts)) \<le> 1
           then map_of ob ''sourceLanguage'' = Some (hd (sourceLanguagesSeen p (take n ts)))
                \<and> map_of ob ''sourceLanguages'' = None
           else map_of ob ''sourceLanguage'' = None
                \<and> map_of ob ''sourceLanguages'' = Some (JsArr (sourceLanguagesSeen p (take n ts)))"
proof -
  from merged_listShape[OF assms] have sh: "listShape (sourceLanguagesSeen p (take n ts)) e" .
  have d: "distinct (map fst e)" using merged_distinct[OF assms(1) agrees_take[OF assms(2)]] .
  from listShape_fields[OF sh] show ?thesis
    by (simp add: outputTerm_other_field[OF d] split: if_splits)
qed

text \<open>
  \<^const>\<open>sample_merge\<close>: after the first record the object of \<^verbatim>\<open>foo\<close> has the single field,
  after the third (the second for \<^verbatim>\<open>foo\<close>, with another source language) the array.
\<close>

theorem C7_witness:
  "map_option (\<lambda>e. (map_of e ''sourceLanguage'', map_of e ''sourceLanguages''))
     (mergedTerm ''foo'' (take 1 sample_merge)) = Some (Some (JsStr ''ja''), None)
   \<and> map_option (\<lambda>e. (map_of e ''sourceLanguage'', map_of e ''sourceLanguages''))
     (mergedTerm ''foo'' (take 3 sample_merge)) = Some (None, Some (JsArr [JsStr ''ja'', JsStr ''en'']))"
proof -
  have ag: "agrees ''foo'' sample_merge" by code_simp
  have ok: "\<forall>t \<in> set (forPattern ''foo'' sample_merge). sourceLanguage t \<noteq> None
              \<and> languageKey t \<noteq> ''sourceLanguage'' \<and> languageKey t \<noteq> ''sourceLanguages''" by code_simp
  have "mergedTerm ''foo'' (take 1 sample_merge) \<noteq> None" by code_simp
  then obtain e1 where e1: "mergedTerm ''foo'' (take 1 sample_merge) = Some e1" by blast
  have "mergedTerm ''foo'' (take 3 sample_merge) \<noteq> None" by code_simp
  then obtain e3 where e3: "mergedTerm ''foo'' (take 3 sample_merge) = Some e3" by blast
  have s1: "sourceLanguagesSeen ''foo'' (take 1 sample_merge) = [JsStr ''ja'']" by code_simp
  have s3: "sourceLanguagesSeen ''foo'' (take 3 sample_merge) = [JsStr ''ja'', JsStr ''en'']" by code_simp
  from C7_one_shape_of_source_languages[OF e1 ag ok]
  have "map_of e1 ''sourceLanguage'' = Some (JsStr ''ja'') \<and> map_of e1 ''sourceLanguages'' = None"
    unfolding s1 by simp
  moreover from C7_one_shape_of_source_languages[OF e3 ag ok]
  have "map_of e3 ''sourceLanguage'' = None \<and> map_of e3 ''sourceLanguages'' = Some (JsArr [JsStr ''ja'', JsStr ''en''])"
    unfolding s3 by simp
  ultimately show ?thesis using e1 e3 by simp
qed

text \<open>
  The claim as stated fails when a language is named \<^verbatim>\<open>sourceLanguages\<close>: line 185
  writes the text under that name, and the object has both fields. With a language
  named \<^verbatim>\<open>sourceLanguage\<close> the text \<^verbatim>\<open>x\<close> takes the place of the source language and ends
  up in the array, although both terms have the source language \<^verbatim>\<open>ja\<close>. A record without
  \<^verbatim>\<open>sourceLanguage\<close> puts \<^verbatim>\<open>undefined\<close> into the array.
\<close>

theorem C7_counterexample:
  "VnrToYagtFormat
     [\<lparr>sourceLanguage = Some ''ja'', language = Some ''sourceLanguages'', text' = Some ''x'',
       pattern = Some ''foo'', regex = None, comment = None,
       dollar = Some [(''type'', ''trans'')]\<rparr>]
   = Inr [[(''pattern'', JsStr ''foo''), (''sourceLanguage'', JsStr ''ja''),
           (''sourceLanguages'', JsStr ''x'')]]
   \<and> map_of [(''pattern'', JsStr ''foo''), (''sourceLanguage'', JsStr ''ja''),
              (''sourceLanguages'', JsStr ''x'')] ''sourceLanguage'' \<noteq> None
   \<and> map_of [(''pattern'', JsStr ''foo''), (''sourceLanguage'', JsStr ''ja''),
              (''sourceLanguages'', JsStr ''x'')] ''sourceLanguages'' \<noteq> None
   \<and> VnrToYagtFormat [translation ''foo'' ''ja'' ''sourceLanguage'' ''x'', translation ''foo'' ''ja'' ''en'' ''a'']
     = Inr [[(''pattern'', JsStr ''foo''), (''multipleSourceLanguages'', JsBool True),
             (''sourceLanguages'', JsArr [JsStr ''x'', JsStr ''ja'']), (''en'', JsStr ''a'')]]
   \<and> VnrToYagtFormat
       [(translation ''foo'' ''ja'' ''en'' ''a'')\<lparr>sourceLanguage := None\<rparr>, translation ''foo'' ''ja'' ''fr'' ''b'']
     = Inr [[(''pattern'', JsStr ''foo''), (''en'', JsStr ''a''), (''multipleSourceLanguages'', JsBool True),
             (''sourceLanguages'', JsArr [JsUndefined, JsStr ''ja'']), (''fr'', JsStr ''b'')]]"
  by code_simp

text \<open>
  C8 (as amended). Let \<open>p\<close> be a pattern text on which lookup and store agree and whose
  converted terms do not use the language name \<^verbatim>\<open>comment\<close>. If the conversion returns,
  the \<^verbatim>\<open>comment\<close> of the Output Term of \<open>p\<close> is the comment of the first converted term
  for \<open>p\<close>, the one that creates the Merged Term, when that comment is not empty, and the
  field is absent otherwise. Later terms never set or overwrite it.
\<close>

theorem C8_comment_of_creating_term:
  assumes "VnrToYagtFormat ts = Inr out" "agrees p ts" "forPattern p ts \<noteq> []"
    and "\<forall>t \<in> set (forPattern p ts). languageKey t \<noteq> ''comment''"
  shows "\<exists>ob. emittedTerm p ts = Some ob \<and> ob \<in> set out \<and>
           map_of ob ''comment'' =
             (case comment (hd (forPattern p ts)) of
                None \<Rightarrow> None
              | Some c \<Rightarrow> if c = [] then None else Some (JsStr c))"
proof -
  from merged_exists[OF assms(1,2,3)] obtain e where e: "mergedTerm p ts = Some e" by blast
  from e assms(2) obtain t0 r where fp: "forPattern p ts = t0 # r" and built: "mergeAll (oneTerm t0) r = Inr e"
    by (rule merged_built)
  from assms(4) fp have l0: "languageKey t0 \<noteq> ''comment''" and lr: "\<forall>t \<in> set r. languageKey t \<noteq> ''comment''"
    by auto
  from mergeAll_comment[OF built lr] oneTerm_comment[OF l0]
  have c: "map_of e ''comment'' = (if truthy (field (comment t0)) then Some (field (comment t0)) else None)"
    by simp
  let ?ob = "outputTerm (p, e)"
  have em: "emittedTerm p ts = Some ?ob" using e by (simp add: emittedTerm_def)
  have "map_of ?ob ''comment'' = map_of e ''comment''"
    by (simp add: map_of_outputTerm[OF merged_distinct[OF e assms(2)]] split: option.splits)
  with c fp have "map_of ?ob ''comment'' =
             (case comment (hd (forPattern p ts)) of
                None \<Rightarrow> None
              | Some c \<Rightarrow> if c = [] then None else Some (JsStr c))"
    by (simp add: truthy_def field_def split: option.splits)
  with em emittedTerm_in_output[OF assms(1) em] show ?thesis by blast
qed

text \<open>\<^const>\<open>sample_merge\<close>: the comments \<^verbatim>\<open>first\<close> and \<^verbatim>\<open>second\<close> for \<^verbatim>\<open>foo\<close>; the first stays.\<close>

theorem C8_witness:
  "\<exists>ob. emittedTerm ''foo'' sample_merge = Some ob \<and> map_of ob ''comment'' = Some (JsStr ''first'')"
proof -
  have run: "VnrToYagtFormat sample_merge = Inr
     [[(''pattern'', JsStr ''foo''), (''en'', JsStr ''c''), (''comment'', JsStr ''first''),
       (''multipleSourceLanguages'', JsBool True),
       (''sourceLanguages'', JsArr [JsStr ''ja'', JsStr ''en'', JsStr ''zh'']),
       (''fr'', JsStr ''b''), (''de'', JsStr ''d'')],
      [(''pattern'', JsStr ''/bar/''), (''sourceLanguage'', JsStr ''ja''), (''en'', JsStr ''x'')]]"
    by code_simp
  have ag: "agrees ''foo'' sample_merge" by code_simp
  have ne: "forPattern ''foo'' sample_merge \<noteq> []" by code_simp
  have lang: "\<forall>t \<in> set (forPattern ''foo'' sample_merge). languageKey t \<noteq> ''comment''" by code_simp
  have first: "(case comment (hd (forPattern ''foo'' sample_merge)) of None \<Rightarrow> None
                | Some c \<Rightarrow> if c = [] then None else Some (JsStr c)) = Some (JsStr ''first'')"
    by code_simp
  from C8_comment_of_creating_term[OF run ag ne lang] show ?thesis unfolding first by blast
qed

text \<open>
  The claim as stated fails when the first term of a key has no comment and a later one
  has: lines 186 to 188 run only for the term that creates the object, the merge of
  lines 161 to 180 does not look at comments, and the output has no comment. And a term
  with the language \<^verbatim>\<open>comment\<close> and no comment leaves its text in the field.
\<close>

theorem C8_counterexample:
  "VnrToYagtFormat
     [\<lparr>sourceLanguage = Some ''ja'', language = Some ''en'', text' = Some ''a'',
       pattern = Some ''foo'', regex = None, comment = None,
       dollar = Some [(''type'', ''trans'')]\<rparr>,
      \<lparr>sourceLanguage = Some ''ja'', language = Some ''fr'', text' = Some ''b'',
       pattern = Some ''foo'', regex = None, comment = Some ''note'',
       dollar = Some [(''type'', ''trans'')]\<rparr>]
   = Inr [[(''pattern'', JsStr ''foo''), (''sourceLanguage'', JsStr ''ja''), (''en'', JsStr ''a''),
           (''fr'', JsStr ''b'')]]
   \<and> map_of [(''pattern'', JsStr ''foo''), (''sourceLanguage'', JsStr ''ja''), (''en'', JsStr ''a''),
              (''fr'', JsStr ''b'')] ''comment'' = None
   \<and> VnrToYagtFormat [translation ''foo'' ''ja'' ''comment'' ''hi'']
     = Inr [[(''pattern'', JsStr ''foo''), (''sourceLanguage'', JsStr ''ja''), (''comment'', JsStr ''hi'')]]"
  by code_simp

text \<open>
  C9. A term whose pattern is purely numeric (as \<^verbatim>\<open>"42"\<close>) or has length at most 1 (as
  \<^verbatim>\<open>"a"\<close>) is excluded from the conversion and produces no Output Term, whatever its
  other fields are. Lines 155 and 156 send such a record to \<^verbatim>\<open>continue\<close>: the loop body
  leaves the dictionary as it is, and the record can be deleted from the input without
  any change of the result. The only other thing the loop body can do with such a
  record is the TypeError of line 152 for a record without attributes, which ends the
  conversion with no output at all.
\<close>

theorem C9_numeric_or_short_pattern_excluded:
  assumes "pattern t = Some p" "purelyNumeric p \<or> length p \<le> 1"
  shows "loopBody terms t = (if dollar t = None then Inl TypeError else Inr terms) \<and>
         (dollar t \<noteq> None \<longrightarrow> VnrToYagtFormat (xs @ t # ys) = VnrToYagtFormat (xs @ ys))"
proof -
  have np: "\<not> passes t" using assms by (rule numeric_or_short_not_passes)
  then have body: "loopBody terms t = (if dollar t = None then Inl TypeError else Inr terms)" for terms
    by (rule loopBody_skip)
  have "VnrToYagtFormat (xs @ t # ys) = VnrToYagtFormat (xs @ ys)" if "dollar t \<noteq> None"
    using that body by (simp add: VnrToYagtFormat_def tempFormat_drop)
  with body show ?thesis by simp
qed

theorem C9_witness:
  "VnrToYagtFormat
     [\<lparr>sourceLanguage = Some ''ja'', language = Some ''en'', text' = Some ''forty-two'',
       pattern = Some ''42'', regex = None, comment = None, dollar = Some [(''type'', ''trans'')]\<rparr>,
      \<lparr>sourceLanguage = Some ''ja'', language = Some ''en'', text' = Some ''hi'',
       pattern = Some ''hello'', regex = None, comment = None, dollar = Some [(''type'', ''trans'')]\<rparr>,
      \<lparr>sourceLanguage = Some ''ja'', language = Some ''en'', text' = Some ''letter'',
       pattern = Some ''a'', regex = None, comment = None, dollar = Some [(''type'', ''trans'')]\<rparr>]
   = VnrToYagtFormat
     [\<lparr>sourceLanguage = Some ''ja'', language = Some ''en'', text' = Some ''hi'',
       pattern = Some ''hello'', regex = None, comment = None, dollar = Some [(''type'', ''trans'')]\<rparr>]"
proof -
  let ?n = "\<lparr>sourceLanguage = Some ''ja'', language = Some ''en'', text' = Some ''forty-two'',
       pattern = Some ''42'', regex = None, comment = None, dollar = Some [(''type'', ''trans'')]\<rparr>"
  let ?h = "\<lparr>sourceLanguage = Some ''ja'', language = Some ''en'', text' = Some ''hi'',
       pattern = Some ''hello'', regex = None, comment = None, dollar = Some [(''type'', ''trans'')]\<rparr>"
  let ?a = "\<lparr>sourceLanguage = Some ''ja'', language = Some ''en'', text' = Some ''letter'',
       pattern = Some ''a'', regex = None, comment = None, dollar = Some [(''type'', ''trans'')]\<rparr>"
  have n: "purelyNumeric ''42'' \<or> length ''42'' \<le> 1" by (simp add: purelyNumeric_def)
  have a: "purelyNumeric ''a'' \<or> length ''a'' \<le> 1" by simp
  from C9_numeric_or_short_pattern_excluded[where t = ?n and p = "''42''" and xs = "[]" and ys = "[?h, ?a]", OF _ n]
  have 1: "VnrToYagtFormat [?n, ?h, ?a] = VnrToYagtFormat [?h, ?a]" by simp
  from C9_numeric_or_short_pattern_excluded[where t = ?a and p = "''a''" and xs = "[?h]" and ys = "[]", OF _ a]
  have 2: "VnrToYagtFormat [?h, ?a] = VnrToYagtFormat [?h]" by simp
  from 1 2 show ?thesis by simp
qed

text \<open>
  C10 (as amended). Let \<open>p\<close> be a pattern text on which lookup and store agree, and let no
  converted term with pattern \<open>p\<close> have the language \<^verbatim>\<open>sourceLanguage\<close> or
  \<^verbatim>\<open>multipleSourceLanguages\<close>. Then after every input record the Merged Term of \<open>p\<close> and
  the Output Term made from it have the field \<^verbatim>\<open>multipleSourceLanguages\<close>, with the value
  \<^verbatim>\<open>true\<close>, exactly when the terms converted so far for \<open>p\<close> have two or more distinct
  values of \<^verbatim>\<open>sourceLanguage\<close> (a missing one counts as a value); the field then comes
  with \<^verbatim>\<open>sourceLanguages\<close>; and once two values have been seen (after \<open>m\<close> records) the
  field is there after every longer prefix.
\<close>

theorem C10_flag_goes_with_several_source_languages:
  assumes "mergedTerm p (take n ts) = Some e" "agrees p ts"
    and "\<forall>t \<in> set (forPattern p ts). languageKey t \<noteq> ''sourceLanguage''
           \<and> languageKey t \<noteq> ''multipleSourceLanguages''"
  shows "\<forall>ob \<in> {e, outputTerm (p, e)}.
           map_of ob ''multipleSourceLanguages'' =
             (if 1 < length (sourceLanguagesSeen p (take n ts)) then Some (JsBool True) else None)
           \<and> (map_of ob ''multipleSourceLanguages'' = None \<or> map_of ob ''sourceLanguages'' \<noteq> None)
           \<and> (\<forall>m \<le> n. 1 < length (sourceLanguagesSeen p (take m ts)) \<longrightarrow>
                 map_of ob ''multipleSourceLanguages'' = Some (JsBool True))"
proof -
  from merged_flagShape[OF assms] have sh: "flagShape (sourceLanguagesSeen p (take n ts)) e" .
  have d: "distinct (map fst e)" using merged_distinct[OF assms(1) agrees_take[OF assms(2)]] .
  have mono: "1 < length (sourceLanguagesSeen p (take n ts))"
    if "m \<le> n" "1 < length (sourceLanguagesSeen p (take m ts))" for m
    using seen_grows[OF that(1), of p ts] that(2) by simp
  from flagShape_fields[OF sh] mono show ?thesis
    by (auto simp: outputTerm_other_field[OF d] split: if_splits)
qed

text \<open>
  \<^const>\<open>sample_merge\<close>: no flag after the first record, the flag after the third, and still
  after the fifth.
\<close>

theorem C10_witness:
  "map_option (\<lambda>e. map_of e ''multipleSourceLanguages'') (mergedTerm ''foo'' (take 1 sample_merge))
     = Some None
   \<and> map_option (\<lambda>e. map_of e ''multipleSourceLanguages'') (mergedTerm ''foo'' (take 3 sample_merge))
     = Some (Some (JsBool True))
   \<and> map_option (\<lambda>e. map_of e ''multipleSourceLanguages'') (mergedTerm ''foo'' (take 5 sample_merge))
     = Some (Some (JsBool True))"
proof -
  have ag: "agrees ''foo'' sample_merge" by code_simp
  have ok: "\<forall>t \<in> set (forPattern ''foo'' sample_merge). languageKey t \<noteq> ''sourceLanguage''
              \<and> languageKey t \<noteq> ''multipleSourceLanguages''" by code_simp
  have "mergedTerm ''foo'' (take 1 sample_merge) \<noteq> None" by code_simp
  then obtain e1 where e1: "mergedTerm ''foo'' (take 1 sample_merge) = Some e1" by blast
  have "mergedTerm ''foo'' (take 3 sample_merge) \<noteq> None" by code_simp
  then obtain e3 where e3: "mergedTerm ''foo'' (take 3 sample_merge) = Some e3" by blast
  have "mergedTerm ''foo'' (take 5 sample_merge) \<noteq> None" by code_simp
  then obtain e5 where e5: "mergedTerm ''foo'' (take 5 sample_merge) = Some e5" by blast
  have s1: "length (sourceLanguagesSeen ''foo'' (take 1 sample_merge)) = 1" by code_simp
  have s3: "length (sourceLanguagesSeen ''foo'' (take 3 sample_merge)) = 2" by code_simp
  have le: "(3::nat) \<le> 5" by simp
  from C10_flag_goes_with_several_source_languages[OF e1 ag ok]
  have "map_of e1 ''multipleSourceLanguages'' = None"
    unfolding s1 by simp
  moreover from C10_flag_goes_with_several_source_languages[OF e3 ag ok]
  have "map_of e3 ''multipleSourceLanguages'' = Some (JsBool True)"
    unfolding s3 by simp
  moreover from C10_flag_goes_with_several_source_languages[OF e5 ag ok] le s3
  have "map_of e5 ''multipleSourceLanguages'' = Some (JsBool True)"
    by (metis insertI1 one_less_numeral_iff semiring_norm(76))
  ultimately show ?thesis using e1 e3 e5 by simp
qed

text \<open>
  The claim as stated fails when a language is named \<^verbatim>\<open>multipleSourceLanguages\<close>: the
  only term has one source language, and the Output Term has the field, holding the
  text. With a language named \<^verbatim>\<open>sourceLanguage\<close> the text \<^verbatim>\<open>x\<close> takes the place of the
  source language, and the second term, with the same source language \<^verbatim>\<open>ja\<close>, sets the
  flag.
\<close>

theorem C10_counterexample:
  "VnrToYagtFormat
     [\<lparr>sourceLanguage = Some ''ja'', language = Some ''multipleSourceLanguages'', text' = Some ''x'',
       pattern = Some ''foo'', regex = None, comment = None,
       dollar = Some [(''type'', ''trans'')]\<rparr>]
   = Inr [[(''pattern'', JsStr ''foo''), (''sourceLanguage'', JsStr ''ja''),
           (''multipleSourceLanguages'', JsStr ''x'')]]
   \<and> map_of [(''pattern'', JsStr ''foo''), (''sourceLanguage'', JsStr ''ja''),
              (''multipleSourceLanguages'', JsStr ''x'')] ''multipleSourceLanguages'' \<noteq> None
   \<and> VnrToYagtFormat [translation ''foo'' ''ja'' ''sourceLanguage'' ''x'', translation ''foo'' ''ja'' ''en'' ''a'']
     = Inr [[(''pattern'', JsStr ''foo''), (''multipleSourceLanguages'', JsBool True),
             (''sourceLanguages'', JsArr [JsStr ''x'', JsStr ''ja'']), (''en'', JsStr ''a'')]]"
  by code_simp

section \<open>Further properties of the converter\<close>

text \<open>
  The filter of lines 150 to 158, as it works: a record gets past it exactly when it has
  an attribute object, a non-empty text, and a pattern of length greater than 1 that
  \<^verbatim>\<open>isNaN\<close> accepts. Neither \<^verbatim>\<open>sourceLanguage\<close> nor \<^verbatim>\<open>type\<close> has any influence.
\<close>

theorem filter_passes_exactly:
  "passes t \<longleftrightarrow>
     dollar t \<noteq> None \<and>
     (\<exists>txt p. text' t = Some txt \<and> txt \<noteq> [] \<and> pattern t = Some p \<and> isNaN p \<and> 1 < length p)"
  by (rule passes_iff)

text \<open>
  The defect behind C2, for any two records: when two converted terms with \<^verbatim>\<open>regex\<close>
  \<^verbatim>\<open>"true"\<close> have the same pattern text, the dictionary holds, under the wrapped key, the
  object created for the second one alone.
\<close>

theorem regex_terms_replace_each_other:
  assumes "passes t1" "passes t2" "pattern t1 = Some p" "pattern t2 = Some p"
    and "regex t1 = Some ''true''" "regex t2 = Some ''true''" "p \<notin> set inherited"
  shows "tempFormat [] [t1, t2] = Inr [(''/'' @ p @ ''/'', oneTerm t2)]"
proof -
  have 1: "loopBody [] t1 = Inr [(''/'' @ p @ ''/'', oneTerm t1)]"
    using assms(1,3,5,7) by (simp add: loopBody_passes storeKey_def)
  have "map_of [(''/'' @ p @ ''/'', oneTerm t1)] p = None"
    using wrapped_differs[of p] by simp
  then have 2: "loopBody [(''/'' @ p @ ''/'', oneTerm t1)] t2 = Inr [(''/'' @ p @ ''/'', oneTerm t2)]"
    using assms(2,4,6,7) by (simp add: loopBody_passes storeKey_def)
  from 1 2 show ?thesis by simp
qed

theorem regex_terms_replace_each_other_witness:
  "tempFormat []
     [(translation ''foo'' ''ja'' ''en'' ''a'')\<lparr>regex := Some ''true''\<rparr>,
      (translation ''foo'' ''ja'' ''fr'' ''b'')\<lparr>regex := Some ''true''\<rparr>]
   = Inr [(''/foo/'', [(''sourceLanguage'', JsStr ''ja''), (''fr'', JsStr ''b'')])]"
proof -
  let ?a = "(translation ''foo'' ''ja'' ''en'' ''a'')\<lparr>regex := Some ''true''\<rparr>"
  let ?b = "(translation ''foo'' ''ja'' ''fr'' ''b'')\<lparr>regex := Some ''true''\<rparr>"
  have h: "passes ?a" "passes ?b" "pattern ?a = Some ''foo''" "pattern ?b = Some ''foo''"
    "regex ?a = Some ''true''" "regex ?b = Some ''true''" "''foo'' \<notin> set inherited"
    by code_simp+
  have o: "oneTerm ?b = [(''sourceLanguage'', JsStr ''ja''), (''fr'', JsStr ''b'')]" by code_simp
  from regex_terms_replace_each_other[OF h] show ?thesis unfolding o by simp
qed

text \<open>
  The order of C3 in which the code keeps the two terms apart: a regex term followed by
  a plain term with the same pattern text gives two entries, under the wrapped key and
  under the pattern text.
\<close>

theorem regex_before_plain_gives_two_terms:
  assumes "passes t1" "passes t2" "pattern t1 = Some p" "pattern t2 = Some p"
    and "regex t1 = Some ''true''" "regex t2 \<noteq> Some ''true''" "p \<notin> set inherited"
  shows "tempFormat [] [t1, t2] = Inr [(''/'' @ p @ ''/'', oneTerm t1), (p, oneTerm t2)]"
proof -
  have 1: "loopBody [] t1 = Inr [(''/'' @ p @ ''/'', oneTerm t1)]"
    using assms(1,3,5,7) by (simp add: loopBody_passes storeKey_def)
  have "map_of [(''/'' @ p @ ''/'', oneTerm t1)] p = None"
    using wrapped_differs[of p] by simp
  then have 2: "loopBody [(''/'' @ p @ ''/'', oneTerm t1)] t2
      = Inr [(''/'' @ p @ ''/'', oneTerm t1), (p, oneTerm t2)]"
    using assms(2,4,6,7) wrapped_differs[of p] by (simp add: loopBody_passes storeKey_def)
  from 1 2 show ?thesis by simp
qed

theorem regex_before_plain_witness:
  "tempFormat []
     [(translation ''foo'' ''ja'' ''en'' ''a'')\<lparr>regex := Some ''true''\<rparr>,
      translation ''foo'' ''ja'' ''fr'' ''b'']
   = Inr [(''/foo/'', [(''sourceLanguage'', JsStr ''ja''), (''en'', JsStr ''a'')]),
          (''foo'', [(''sourceLanguage'', JsStr ''ja''), (''fr'', JsStr ''b'')])]"
proof -
  let ?a = "(translation ''foo'' ''ja'' ''en'' ''a'')\<lparr>regex := Some ''true''\<rparr>"
  let ?b = "translation ''foo'' ''ja'' ''fr'' ''b''"
  have h: "passes ?a" "passes ?b" "pattern ?a = Some ''foo''" "pattern ?b = Some ''foo''"
    "regex ?a = Some ''true''" "regex ?b \<noteq> Some ''true''" "''foo'' \<notin> set inherited"
    by code_simp+
  have o: "oneTerm ?a = [(''sourceLanguage'', JsStr ''ja''), (''en'', JsStr ''a'')]"
    "oneTerm ?b = [(''sourceLanguage'', JsStr ''ja''), (''fr'', JsStr ''b'')]" by code_simp+
  from regex_before_plain_gives_two_terms[OF h] show ?thesis unfolding o by simp
qed

text \<open>
  The end-to-end example of the specification: two translations of \<^verbatim>\<open>hello\<close> give one
  Output Term with both languages.
\<close>

theorem end_to_end_hello:
  "VnrToYagtFormat [translation ''hello'' ''ja'' ''en'' ''hi'', translation ''hello'' ''ja'' ''fr'' ''salut'']
   = Inr [[(''pattern'', JsStr ''hello''), (''sourceLanguage'', JsStr ''ja''), (''en'', JsStr ''hi''),
           (''fr'', JsStr ''salut'')]]"
  by code_simp

text \<open>
  When no converted term has \<^verbatim>\<open>regex\<close> \<^verbatim>\<open>"true"\<close> (and no language is named \<^verbatim>\<open>pattern\<close>),
  the \<^verbatim>\<open>pattern\<close> fields of the output are the pattern texts of the converted terms, each
  at the place of its first appearance in the input.
\<close>

theorem plain_terms_first_appearance_order:
  assumes "VnrToYagtFormat ts = Inr out"
    and "\<forall>t \<in> set ts. passes t \<longrightarrow> regex t \<noteq> Some ''true''"
    and "list_all (\<lambda>t. languageKey t \<noteq> ''pattern'') ts"
  shows "map (\<lambda>ob. get_prop ob ''pattern'') out =
           map JsStr (firstSeen (List.map_filter (\<lambda>t. if passes t then pattern t else None) ts))"
proof -
  from assms(1) obtain terms where run: "tempFormat [] ts = Inr terms" and out: "out = map outputTerm terms"
    by (auto simp: VnrToYagtFormat_def split: sum.splits)
  from keys_plain[OF run assms(2)] pattern_fields[OF run assms(3)] out show ?thesis
    by (simp add: firstSeen_def)
qed

theorem plain_terms_first_appearance_order_witness:
  "map (\<lambda>ob. get_prop ob ''pattern'') [[(''pattern'', JsStr ''zeta''), (''sourceLanguage'', JsStr ''ja''), (''en'', JsStr ''z''), (''fr'', JsStr ''zz'')],
          [(''pattern'', JsStr ''alpha''), (''sourceLanguage'', JsStr ''ja''), (''en'', JsStr ''a'')]]
    = map JsStr [''zeta'', ''alpha'']
   \<and> VnrToYagtFormat sample_plain
     = Inr [[(''pattern'', JsStr ''zeta''), (''sourceLanguage'', JsStr ''ja''), (''en'', JsStr ''z''), (''fr'', JsStr ''zz'')],
          [(''pattern'', JsStr ''alpha''), (''sourceLanguage'', JsStr ''ja''), (''en'', JsStr ''a'')]]"
proof -
  have run: "VnrToYagtFormat sample_plain
     = Inr [[(''pattern'', JsStr ''zeta''), (''sourceLanguage'', JsStr ''ja''), (''en'', JsStr ''z''), (''fr'', JsStr ''zz'')],
          [(''pattern'', JsStr ''alpha''), (''sourceLanguage'', JsStr ''ja''), (''en'', JsStr ''a'')]]"
    by code_simp
  have nr: "\<forall>t \<in> set sample_plain. passes t \<longrightarrow> regex t \<noteq> Some ''true''" by code_simp
  have np: "list_all (\<lambda>t. languageKey t \<noteq> ''pattern'') sample_plain" by code_simp
  have fs: "firstSeen (List.map_filter (\<lambda>t. if passes t then pattern t else None) sample_plain)
     = [''zeta'', ''alpha'']" by code_simp
  from plain_terms_first_appearance_order[OF run nr np] run show ?thesis unfolding fs by simp
qed

text \<open>No key stored by the loop is integer-like, so the loop of line 198 sees creation order.\<close>

theorem stored_keys_never_integer_like_witness:
  "\<not> DecimalDigits ''/alpha/'' \<and> ''/alpha/'' \<in> set (storedKeys [] sample_order)"
proof -
  have m: "''/alpha/'' \<in> set (storedKeys [] sample_order)" by code_simp
  from storedKeys_not_index[OF m] m show ?thesis by simp
qed

end
